theory Spec2Isabelle
  imports Complex_Main "HOL-Library.AList"
begin

section \<open>JavaScript values as the credit-note code sees them\<close>

text \<open>
  The two functions under study are \<^verbatim>\<open>serializeCreditNoteInput\<close> (the tree serializer)
  and \<^verbatim>\<open>generateFeesSchema\<close> with its leaf rule \<^verbatim>\<open>simpleFeeSchema\<close> (the tree
  validator). Both are TypeScript; the model below follows their typed view of the data and
  makes explicit what happens at run time:

  \<^item> a value that may be \<^verbatim>\<open>undefined\<close> is an \<open>option\<close> (\<open>None\<close> is \<^verbatim>\<open>undefined\<close>);
  \<^item> an object used as a dictionary is an association list in property enumeration
    order, the order in which \<^verbatim>\<open>Object.keys\<close> lists the keys; the keys of a
    JavaScript object are pairwise distinct, which is the predicate \<open>distinct_keys\<close> below;
  \<^item> a number is a rational: the arithmetic of the model is exact, the rounding error of
    IEEE doubles is not modelled, and there is no \<^verbatim>\<open>NaN\<close> among the inputs;
  \<^item> the only exception the code can raise is the \<^verbatim>\<open>TypeError\<close> of reading a
    property of \<^verbatim>\<open>undefined\<close> or of \<^verbatim>\<open>Object.keys(undefined)\<close>; a function
    that can raise returns \<open>js_error + 'a\<close>.
\<close>

datatype js_error = TypeError

text \<open>\<^verbatim>\<open>Object.keys(o)\<close>: the own keys in enumeration order; a \<^verbatim>\<open>TypeError\<close> when
  \<^verbatim>\<open>o\<close> is \<^verbatim>\<open>undefined\<close>.\<close>

definition Object_keys :: "(string \<times> 'v) list option \<Rightarrow> js_error + string list" where
  "Object_keys obj = (case obj of None \<Rightarrow> Inl TypeError | Some kvs \<Rightarrow> Inr (map fst kvs))"

text \<open>\<^verbatim>\<open>xs.reduce(f, acc)\<close> for a callback that may raise: the first exception ends the
  loop.\<close>

fun reduce :: "('b \<Rightarrow> 'a \<Rightarrow> js_error + 'b) \<Rightarrow> 'b \<Rightarrow> 'a list \<Rightarrow> js_error + 'b" where
  "reduce f acc [] = Inr acc"
| "reduce f acc (x # xs) = (case f acc x of Inl e \<Rightarrow> Inl e | Inr acc' \<Rightarrow> reduce f acc' xs)"

section \<open>The data model\<close>

text \<open>
  Modelled from the spec: the type declarations of \<^verbatim>\<open>~/components/creditNote/types\<close> and
  of \<^verbatim>\<open>~/generated/graphql\<close> are not among the sources. A leaf fee has \<^verbatim>\<open>id\<close>,
  \<^verbatim>\<open>checked\<close>, \<^verbatim>\<open>value\<close> (major units) and \<^verbatim>\<open>maxAmount\<close> (minor units). A fee-group is
  the untagged union \<^verbatim>\<open>FromFee | GroupedFee\<close>, told apart at run time by
  \<^verbatim>\<open>typeof child.checked === 'boolean'\<close>: the constructor \<open>AsFromFee\<close> is an object whose
  \<^verbatim>\<open>checked\<close> is a boolean, \<open>AsGroupedFee\<close> is any other object, of which the code reads
  the \<^verbatim>\<open>grouped\<close> property only (which may be \<^verbatim>\<open>undefined\<close>). GraphQL enumerations
  (\<^verbatim>\<open>CurrencyEnum\<close>, \<^verbatim>\<open>CreditNoteReasonEnum\<close>) are strings at run time.
\<close>

type_synonym CurrencyEnum = string
type_synonym CreditNoteReasonEnum = string

datatype CreditTypeEnum = credit | refund

datatype CreditNoteFeeErrorEnum = minZero | overMax

record FromFee =
  fee_id :: string
  checked :: bool
  fee_value :: rat
  maxAmount :: rat

record GroupedFee =
  grouped :: "(string \<times> FromFee) list option"

datatype FeeGroup = AsFromFee FromFee | AsGroupedFee GroupedFee

record SubInvoice =
  fees :: "(string \<times> FeeGroup) list option"

type_synonym FeesPerInvoice = "(string \<times> SubInvoice option) list"

record PayBack =
  payBack_type :: "CreditTypeEnum option"
  payBack_value :: "rat option"

record CreditNoteForm =
  form_reason :: "CreditNoteReasonEnum option"
  form_description :: "string option"
  form_payBack :: "PayBack list option"
  form_fees :: "FeesPerInvoice option"
  form_addOnFee :: "FromFee option"

record CreditNoteItemInput =
  feeId :: string
  amountCents :: int

record CreateCreditNoteInput =
  invoiceId :: string
  reason :: "CreditNoteReasonEnum option"
  description :: "string option"
  creditAmountCents :: int
  refundAmountCents :: int
  items :: "CreditNoteItemInput list"

section \<open>Amount conversion\<close>

text \<open>
  Modelled from the spec: \<^verbatim>\<open>~/core/serializers/serializeAmount\<close> is not among the
  sources. The currency precision table is external: most currencies have 2 decimal digits
  and a subset has 3. The subset is the parameter \<open>threeDecimals\<close> of every function that
  converts an amount.
\<close>

definition getCurrencyPrecision :: "CurrencyEnum list \<Rightarrow> CurrencyEnum \<Rightarrow> nat" where
  "getCurrencyPrecision threeDecimals currency =
     (if currency \<in> set threeDecimals then 3 else 2)"

text \<open>
  Modelled from the spec: the conversion from major to minor units is
  \<^verbatim>\<open>round(amount * 10^precision)\<close>; \<open>round x\<close> is \<open>\<lfloor>x + 1/2\<rfloor>\<close>, as
  \<^verbatim>\<open>Math.round\<close> is.
\<close>

definition serializeAmount :: "CurrencyEnum list \<Rightarrow> rat \<Rightarrow> CurrencyEnum \<Rightarrow> int" where
  "serializeAmount threeDecimals v currency =
     round (v * 10 ^ getCurrencyPrecision threeDecimals currency)"

text \<open>
  Modelled from the spec: the conversion from minor to major units reverses the same
  precision.
\<close>

definition deserializeAmount :: "CurrencyEnum list \<Rightarrow> rat \<Rightarrow> CurrencyEnum \<Rightarrow> rat" where
  "deserializeAmount threeDecimals v currency =
     v / 10 ^ getCurrencyPrecision threeDecimals currency"

section \<open>The tree serializer\<close>

text \<open>
  The three nested \<^verbatim>\<open>reduce\<close> callbacks of \<^verbatim>\<open>serializeCreditNoteInput\<close>, innermost
  first. A key handed to a callback is looked up in the object again, as the source does;
  a lookup that finds nothing gives \<^verbatim>\<open>undefined\<close>, whose \<^verbatim>\<open>checked\<close> cannot be read.
\<close>

definition serialize_fee ::
  "CurrencyEnum list \<Rightarrow> CurrencyEnum \<Rightarrow> (string \<times> FromFee) list option \<Rightarrow>
   CreditNoteItemInput list \<Rightarrow> string \<Rightarrow> js_error + CreditNoteItemInput list" where
  "serialize_fee threeDecimals currency grouped_obj feeAcc feeKey =
     (case grouped_obj of
        None \<Rightarrow> Inl TypeError
      | Some g \<Rightarrow>
         (case map_of g feeKey of
            None \<Rightarrow> Inl TypeError
          | Some fee \<Rightarrow>
              Inr (if \<not> checked fee then feeAcc
                   else feeAcc @
                     [\<lparr>feeId = fee_id fee,
                       amountCents =
                         serializeAmount threeDecimals (fee_value fee) currency\<rparr>])))"

definition serialize_group ::
  "CurrencyEnum list \<Rightarrow> CurrencyEnum \<Rightarrow> SubInvoice option \<Rightarrow>
   CreditNoteItemInput list \<Rightarrow> string \<Rightarrow> js_error + CreditNoteItemInput list" where
  "serialize_group threeDecimals currency subChild groupAcc groupKey =
     (case subChild of
        None \<Rightarrow> Inl TypeError
      | Some sc \<Rightarrow>
         (case fees sc of
            None \<Rightarrow> Inl TypeError
          | Some fs \<Rightarrow>
             (case map_of fs groupKey of
                None \<Rightarrow> Inl TypeError
              | Some (AsFromFee child) \<Rightarrow> \<comment> \<open>\<^verbatim>\<open>typeof child.checked === 'boolean'\<close>\<close>
                  Inr (if \<not> checked child then groupAcc
                       else groupAcc @
                         [\<lparr>feeId = fee_id child,
                           amountCents =
                             serializeAmount threeDecimals (fee_value child) currency\<rparr>])
              | Some (AsGroupedFee child) \<Rightarrow> \<comment> \<open>otherwise: \<^verbatim>\<open>child?.grouped\<close> is walked\<close>
                 (case Object_keys (grouped child) of
                    Inl e \<Rightarrow> Inl e
                  | Inr feeKeys \<Rightarrow>
                     (case reduce (serialize_fee threeDecimals currency (grouped child))
                             [] feeKeys of
                        Inl e \<Rightarrow> Inl e
                      | Inr inner \<Rightarrow> Inr (groupAcc @ inner))))))"

definition serialize_sub ::
  "CurrencyEnum list \<Rightarrow> CurrencyEnum \<Rightarrow> FeesPerInvoice \<Rightarrow>
   CreditNoteItemInput list \<Rightarrow> string \<Rightarrow> js_error + CreditNoteItemInput list" where
  "serialize_sub threeDecimals currency fees_obj subAcc subKey =
     (let subChild = (case map_of fees_obj subKey of None \<Rightarrow> None | Some sc \<Rightarrow> sc) in
      case Object_keys (case subChild of None \<Rightarrow> None | Some sc \<Rightarrow> fees sc) of
        Inl e \<Rightarrow> Inl e
      | Inr groupKeys \<Rightarrow>
         (case reduce (serialize_group threeDecimals currency subChild) [] groupKeys of
            Inl e \<Rightarrow> Inl e
          | Inr inner \<Rightarrow> Inr (subAcc @ inner)))"

text \<open>
  \<^verbatim>\<open>payBack.find((p) => p.type === t)?.value || 0\<close>: the value of the first entry of the
  given type, and 0 when there is no such entry or its value is \<^verbatim>\<open>undefined\<close> or 0.
\<close>

definition payBack_amount :: "PayBack list \<Rightarrow> CreditTypeEnum \<Rightarrow> rat" where
  "payBack_amount payBack t =
     (case find (\<lambda>p. payBack_type p = Some t) payBack of
        None \<Rightarrow> 0
      | Some p \<Rightarrow>
         (case payBack_value p of
            None \<Rightarrow> 0
          | Some v \<Rightarrow> if v = 0 then 0 else v))"

definition serializeCreditNoteInput ::
  "CurrencyEnum list \<Rightarrow> string \<Rightarrow> CreditNoteForm \<Rightarrow> CurrencyEnum \<Rightarrow>
   js_error + CreateCreditNoteInput" where
  "serializeCreditNoteInput threeDecimals invoice_id formValues currency =
     (let fees_obj = (case form_fees formValues of None \<Rightarrow> [] | Some f \<Rightarrow> f) in
      case reduce (serialize_sub threeDecimals currency fees_obj) [] (map fst fees_obj) of
        Inl e \<Rightarrow> Inl e
      | Inr tree_items \<Rightarrow>
          Inr \<lparr>invoiceId = invoice_id,
               reason = form_reason formValues,
               description = form_description formValues,
               creditAmountCents =
                 (case form_payBack formValues of
                    None \<Rightarrow> 0
                  | Some payBack \<Rightarrow>
                      serializeAmount threeDecimals (payBack_amount payBack credit) currency),
               refundAmountCents =
                 (case form_payBack formValues of
                    None \<Rightarrow> 0
                  | Some payBack \<Rightarrow>
                      (let r = serializeAmount threeDecimals
                                 (payBack_amount payBack refund) currency
                       in if r = 0 then 0 else r)),
               items =
                 (case form_addOnFee formValues of
                    None \<Rightarrow> []
                  | Some addOn \<Rightarrow>
                      if fee_value addOn \<noteq> 0
                      then [\<lparr>feeId = fee_id addOn,
                             amountCents =
                               serializeAmount threeDecimals (fee_value addOn) currency\<rparr>]
                      else [])
                 @ tree_items\<rparr>)"

section \<open>The tree validator\<close>

subsection \<open>The library functions it calls\<close>

text \<open>
  \<^verbatim>\<open>_get(object, path)\<close> of lodash, for the paths that \<^verbatim>\<open>generateFeesSchema\<close> builds
  with template strings. A path that is itself a key of the object is used as one key;
  any other path is cut at its dots and followed key by key, and the result is
  \<^verbatim>\<open>undefined\<close> as soon as a step finds nothing. (The bracket syntax of lodash paths is
  not modelled: the theorems that depend on the value found assume keys without dots and
  brackets, see \<open>path_safe\<close>.)
\<close>

fun stringToPath :: "string \<Rightarrow> string list" where
  "stringToPath [] = [[]]"
| "stringToPath (c # cs) =
     (if c = CHR ''.'' then [] # stringToPath cs
      else (case stringToPath cs of
              [] \<Rightarrow> [[c]]
            | seg # segs \<Rightarrow> (c # seg) # segs))"

text \<open>
  Every path built by \<^verbatim>\<open>generateFeesSchema\<close> ends in \<^verbatim>\<open>.maxAmount\<close>, and in the data
  model only a leaf fee has that property: following a path gives a number exactly when
  the path is \<^verbatim>\<open>[subKey, fees, groupKey, maxAmount]\<close> and leads to a bare leaf, or is
  \<^verbatim>\<open>[subKey, fees, groupKey, grouped, feeKey, maxAmount]\<close> and leads to a leaf of a
  grouped wrapper. \<open>None\<close> stands for every other result (\<^verbatim>\<open>undefined\<close> or an object),
  which the conversion to a number turns into \<^verbatim>\<open>NaN\<close>.
\<close>

fun baseGet :: "FeesPerInvoice \<Rightarrow> string list \<Rightarrow> rat option" where
  "baseGet object [subKey, f, groupKey, m] =
     (if f = ''fees'' \<and> m = ''maxAmount'' then
        (case map_of object subKey of
           Some (Some sc) \<Rightarrow>
             (case fees sc of
                Some fs \<Rightarrow>
                  (case map_of fs groupKey of
                     Some (AsFromFee fee) \<Rightarrow> Some (maxAmount fee)
                   | _ \<Rightarrow> None)
              | None \<Rightarrow> None)
         | _ \<Rightarrow> None)
      else None)"
| "baseGet object [subKey, f, groupKey, g, feeKey, m] =
     (if f = ''fees'' \<and> g = ''grouped'' \<and> m = ''maxAmount'' then
        (case map_of object subKey of
           Some (Some sc) \<Rightarrow>
             (case fees sc of
                Some fs \<Rightarrow>
                  (case map_of fs groupKey of
                     Some (AsGroupedFee w) \<Rightarrow>
                       (case grouped w of
                          Some gs \<Rightarrow>
                            (case map_of gs feeKey of
                               Some fee \<Rightarrow> Some (maxAmount fee)
                             | None \<Rightarrow> None)
                        | None \<Rightarrow> None)
                   | _ \<Rightarrow> None)
              | None \<Rightarrow> None)
         | _ \<Rightarrow> None)
      else None)"
| "baseGet object path = None"

definition lodash_get :: "FeesPerInvoice \<Rightarrow> string \<Rightarrow> rat option" where
  "lodash_get object path =
     (if path \<in> set (map fst object) then None else baseGet object (stringToPath path))"

text \<open>
  The schemas of yup that \<^verbatim>\<open>feesSchema.ts\<close> builds, as data. A leaf schema is
  \<^verbatim>\<open>object().shape({checked: boolean(), value: number().default(0).when('checked', ...)})\<close>;
  what varies from leaf to leaf is the pair of bounds that apply when \<^verbatim>\<open>checked\<close> is true.
  \<open>value_max = None\<close> is the bound \<^verbatim>\<open>NaN\<close>, which no value satisfies. An
  \<^verbatim>\<open>object().shape({...})\<close> is the association list of its fields.
\<close>

record SimpleFeeSchema =
  value_min :: rat
  value_max :: "rat option"

datatype FeeGroupSchema =
    SimpleFee SimpleFeeSchema
  | GroupedShape "(string \<times> SimpleFeeSchema) list"

type_synonym FeesSchema = "(string \<times> (string \<times> FeeGroupSchema) list) list"

subsection \<open>simpleFeeSchema and generateFeesSchema\<close>

text \<open>
  \<^verbatim>\<open>simpleFeeSchema(maxAmount, currency)\<close>. Its argument is what \<^verbatim>\<open>_get\<close> returned, cast
  to a number by the caller.
\<close>

definition simpleFeeSchema ::
  "CurrencyEnum list \<Rightarrow> rat option \<Rightarrow> CurrencyEnum \<Rightarrow> SimpleFeeSchema" where
  "simpleFeeSchema threeDecimals max_amount currency =
     \<lparr>value_min = 1 / 10 ^ 16,
      value_max =
        (case max_amount of
           None \<Rightarrow> None
         | Some m \<Rightarrow> Some (deserializeAmount threeDecimals m currency))\<rparr>"

text \<open>
  The three nested \<^verbatim>\<open>reduce\<close> callbacks of \<^verbatim>\<open>generateFeesSchema\<close>, innermost first.
  \<^verbatim>\<open>{...acc, [key]: schema}\<close> sets the key in place when it is there and appends it
  otherwise, which is \<open>AList.update\<close>.
\<close>

definition schema_fee ::
  "CurrencyEnum list \<Rightarrow> CurrencyEnum \<Rightarrow> FeesPerInvoice option \<Rightarrow> string \<Rightarrow> string \<Rightarrow>
   (string \<times> SimpleFeeSchema) list \<Rightarrow> string \<Rightarrow>
   js_error + (string \<times> SimpleFeeSchema) list" where
  "schema_fee threeDecimals currency formikInitialFees subKey feeGroupKey feeAcc feeKey =
     Inr (AList.update feeKey
            (simpleFeeSchema threeDecimals
               (lodash_get (case formikInitialFees of None \<Rightarrow> [] | Some t \<Rightarrow> t)
                  (subKey @ ''.fees.'' @ feeGroupKey @ ''.grouped.'' @ feeKey
                     @ ''.maxAmount''))
               currency)
            feeAcc)"

definition schema_group ::
  "CurrencyEnum list \<Rightarrow> CurrencyEnum \<Rightarrow> FeesPerInvoice option \<Rightarrow> string \<Rightarrow>
   (string \<times> FeeGroup) list option \<Rightarrow>
   (string \<times> FeeGroupSchema) list \<Rightarrow> string \<Rightarrow>
   js_error + (string \<times> FeeGroupSchema) list" where
  "schema_group threeDecimals currency formikInitialFees subKey subChilds
     feeGroupAcc feeGroupKey =
     (case subChilds of
        None \<Rightarrow> Inl TypeError
      | Some fs \<Rightarrow>
         (case map_of fs feeGroupKey of
            None \<Rightarrow> Inl TypeError
          | Some (AsFromFee child) \<Rightarrow> \<comment> \<open>\<^verbatim>\<open>typeof child.checked === 'boolean'\<close>\<close>
              Inr (AList.update feeGroupKey
                     (SimpleFee
                        (simpleFeeSchema threeDecimals
                           (lodash_get
                              (case formikInitialFees of None \<Rightarrow> [] | Some t \<Rightarrow> t)
                              (subKey @ ''.fees.'' @ feeGroupKey @ ''.maxAmount''))
                           currency))
                     feeGroupAcc)
          | Some (AsGroupedFee child) \<Rightarrow> \<comment> \<open>otherwise: \<^verbatim>\<open>child?.grouped\<close> is walked\<close>
             (case Object_keys (grouped child) of
                Inl e \<Rightarrow> Inl e
              | Inr feeKeys \<Rightarrow>
                 (case reduce
                         (schema_fee threeDecimals currency formikInitialFees
                            subKey feeGroupKey)
                         [] feeKeys of
                    Inl e \<Rightarrow> Inl e
                  | Inr inner \<Rightarrow>
                      Inr (AList.update feeGroupKey (GroupedShape inner) feeGroupAcc)))))"

definition schema_sub ::
  "CurrencyEnum list \<Rightarrow> CurrencyEnum \<Rightarrow> FeesPerInvoice option \<Rightarrow>
   FeesSchema \<Rightarrow> string \<Rightarrow> js_error + FeesSchema" where
  "schema_sub threeDecimals currency formikInitialFees accSub subKey =
     (case formikInitialFees of
        None \<Rightarrow> Inl TypeError
      | Some t \<Rightarrow>
         (let subChilds =
                (case map_of t subKey of
                   Some (Some sc) \<Rightarrow> fees sc
                 | _ \<Rightarrow> None)
          in case Object_keys subChilds of
               Inl e \<Rightarrow> Inl e
             | Inr feeGroupKeys \<Rightarrow>
                (case reduce
                        (schema_group threeDecimals currency formikInitialFees
                           subKey subChilds)
                        [] feeGroupKeys of
                   Inl e \<Rightarrow> Inl e
                 | Inr inner \<Rightarrow> Inr (AList.update subKey inner accSub))))"

definition generateFeesSchema ::
  "CurrencyEnum list \<Rightarrow> FeesPerInvoice option \<Rightarrow> CurrencyEnum \<Rightarrow> js_error + FeesSchema" where
  "generateFeesSchema threeDecimals formikInitialFees currency =
     reduce (schema_sub threeDecimals currency formikInitialFees) []
       (map fst (case formikInitialFees of None \<Rightarrow> [] | Some t \<Rightarrow> t))"

subsection \<open>Validation of a candidate tree\<close>

text \<open>
  What yup does when the form's fee tree is validated against the schema. An object schema
  validates, field by field, the property of the candidate with the field's name; a
  property the candidate lacks is \<^verbatim>\<open>undefined\<close>, which every schema here accepts, and
  a property the schema does not name is not looked at. At a leaf, \<^verbatim>\<open>when('checked', ...)\<close>
  replaces the schema of \<^verbatim>\<open>value\<close> by
  \<^verbatim>\<open>number().min(0.0000000000000001, minZero).max(bound, overMax).required('')\<close> when
  \<^verbatim>\<open>checked\<close> is true and leaves it unconstrained otherwise. An error is the path of the
  offending value with the message of the test that failed; a candidate is valid when
  there is no error.
\<close>

definition validate_simpleFee :: "SimpleFeeSchema \<Rightarrow> FromFee \<Rightarrow> CreditNoteFeeErrorEnum list" where
  "validate_simpleFee schema fee =
     (if checked fee then
        (if fee_value fee < value_min schema then [minZero] else []) @
        (case value_max schema of
           None \<Rightarrow> [overMax]
         | Some bound \<Rightarrow> if bound < fee_value fee then [overMax] else [])
      else [])"

definition validate_at ::
  "string list \<Rightarrow> SimpleFeeSchema \<Rightarrow> FromFee \<Rightarrow> (string list \<times> CreditNoteFeeErrorEnum) list" where
  "validate_at path schema fee =
     map (\<lambda>e. (path @ [''value''], e)) (validate_simpleFee schema fee)"

definition validate_feeGroup ::
  "string list \<Rightarrow> FeeGroupSchema \<Rightarrow> FeeGroup \<Rightarrow> (string list \<times> CreditNoteFeeErrorEnum) list" where
  "validate_feeGroup path schema node =
     (case schema of
        SimpleFee leaf_schema \<Rightarrow>
          (case node of
             AsFromFee fee \<Rightarrow> validate_at path leaf_schema fee
           | AsGroupedFee w \<Rightarrow> [])
      | GroupedShape field_schemas \<Rightarrow>
          (case node of
             AsFromFee fee \<Rightarrow> []
           | AsGroupedFee w \<Rightarrow>
              (case grouped w of
                 None \<Rightarrow> []
               | Some gs \<Rightarrow>
                   concat (map (\<lambda>(feeKey, leaf_schema).
                                  case map_of gs feeKey of
                                    None \<Rightarrow> []
                                  | Some fee \<Rightarrow>
                                      validate_at (path @ [''grouped'', feeKey])
                                        leaf_schema fee)
                               field_schemas))))"

definition validate_subInvoice ::
  "string \<Rightarrow> (string \<times> FeeGroupSchema) list \<Rightarrow> SubInvoice option \<Rightarrow>
   (string list \<times> CreditNoteFeeErrorEnum) list" where
  "validate_subInvoice subKey group_schemas sub =
     (case sub of
        None \<Rightarrow> []
      | Some sc \<Rightarrow>
         (case fees sc of
            None \<Rightarrow> []
          | Some fs \<Rightarrow>
              concat (map (\<lambda>(groupKey, schema).
                             case map_of fs groupKey of
                               None \<Rightarrow> []
                             | Some node \<Rightarrow>
                                 validate_feeGroup [subKey, ''fees'', groupKey] schema node)
                          group_schemas)))"

definition validate ::
  "FeesSchema \<Rightarrow> FeesPerInvoice \<Rightarrow> (string list \<times> CreditNoteFeeErrorEnum) list" where
  "validate schema candidate =
     concat (map (\<lambda>(subKey, group_schemas).
                    case map_of candidate subKey of
                      None \<Rightarrow> []
                    | Some sub \<Rightarrow> validate_subInvoice subKey group_schemas sub)
                 schema)"

section \<open>Reference definitions for the properties\<close>

text \<open>
  The walk the specification describes: every sub-invoice group, every fee-group within
  it, and for a grouped fee-group every leaf of its \<^verbatim>\<open>grouped\<close> map. Each leaf comes
  with its position: the sub-invoice key, the fee-group key and, under a grouped
  fee-group, the key of the leaf. A branch that is \<^verbatim>\<open>undefined\<close> has no leaves.
\<close>

type_synonym leaf_path = "string \<times> string \<times> string option"

definition group_walk :: "string \<Rightarrow> string \<Rightarrow> FeeGroup \<Rightarrow> (leaf_path \<times> FromFee) list" where
  "group_walk subKey groupKey node =
     (case node of
        AsFromFee fee \<Rightarrow> [((subKey, groupKey, None), fee)]
      | AsGroupedFee w \<Rightarrow>
         (case grouped w of
            None \<Rightarrow> []
          | Some gs \<Rightarrow> map (\<lambda>(feeKey, fee). ((subKey, groupKey, Some feeKey), fee)) gs))"

definition sub_walk :: "string \<Rightarrow> SubInvoice option \<Rightarrow> (leaf_path \<times> FromFee) list" where
  "sub_walk subKey sub =
     (case sub of
        None \<Rightarrow> []
      | Some sc \<Rightarrow>
         (case fees sc of
            None \<Rightarrow> []
          | Some fs \<Rightarrow> concat (map (\<lambda>(groupKey, node). group_walk subKey groupKey node) fs)))"

definition tree_walk :: "FeesPerInvoice \<Rightarrow> (leaf_path \<times> FromFee) list" where
  "tree_walk t = concat (map (\<lambda>(subKey, sub). sub_walk subKey sub) t)"

definition tree_leaves :: "FeesPerInvoice \<Rightarrow> FromFee list" where
  "tree_leaves t = map snd (tree_walk t)"

text \<open>The leaf of a tree at a position, if there is one.\<close>

definition leaf_at :: "FeesPerInvoice \<Rightarrow> leaf_path \<Rightarrow> FromFee option" where
  "leaf_at t p =
     (case p of (subKey, groupKey, feeKey) \<Rightarrow>
        (case map_of t subKey of
           Some (Some sc) \<Rightarrow>
             (case fees sc of
                Some fs \<Rightarrow>
                  (case (map_of fs groupKey, feeKey) of
                     (Some (AsFromFee fee), None) \<Rightarrow> Some fee
                   | (Some (AsGroupedFee w), Some k) \<Rightarrow>
                       (case grouped w of Some gs \<Rightarrow> map_of gs k | None \<Rightarrow> None)
                   | _ \<Rightarrow> None)
              | None \<Rightarrow> None)
         | _ \<Rightarrow> None))"

text \<open>The line item of a leaf.\<close>

definition item_of :: "CurrencyEnum list \<Rightarrow> CurrencyEnum \<Rightarrow> FromFee \<Rightarrow> CreditNoteItemInput" where
  "item_of threeDecimals currency fee =
     \<lparr>feeId = fee_id fee,
      amountCents = serializeAmount threeDecimals (fee_value fee) currency\<rparr>"

text \<open>
  The keys of a JavaScript object are pairwise distinct: a tree that represents one has
  distinct keys in every map.
\<close>

definition group_distinct :: "FeeGroup \<Rightarrow> bool" where
  "group_distinct node =
     (case node of
        AsFromFee fee \<Rightarrow> True
      | AsGroupedFee w \<Rightarrow>
         (case grouped w of None \<Rightarrow> True | Some gs \<Rightarrow> distinct (map fst gs)))"

definition sub_distinct :: "SubInvoice option \<Rightarrow> bool" where
  "sub_distinct sub =
     (case sub of
        None \<Rightarrow> True
      | Some sc \<Rightarrow>
         (case fees sc of
            None \<Rightarrow> True
          | Some fs \<Rightarrow> distinct (map fst fs) \<and> list_all (\<lambda>(k, node). group_distinct node) fs))"

definition distinct_keys :: "FeesPerInvoice \<Rightarrow> bool" where
  "distinct_keys t = (distinct (map fst t) \<and> list_all (\<lambda>(k, sub). sub_distinct sub) t)"

text \<open>
  A populated tree has every nested map: each sub-invoice group is an object with a
  \<^verbatim>\<open>fees\<close> map, and each fee-group that is not a bare leaf has a \<^verbatim>\<open>grouped\<close> map.
\<close>

definition group_populated :: "FeeGroup \<Rightarrow> bool" where
  "group_populated node =
     (case node of
        AsFromFee fee \<Rightarrow> True
      | AsGroupedFee w \<Rightarrow> (case grouped w of None \<Rightarrow> False | Some gs \<Rightarrow> True))"

definition sub_populated :: "SubInvoice option \<Rightarrow> bool" where
  "sub_populated sub =
     (case sub of
        None \<Rightarrow> False
      | Some sc \<Rightarrow>
         (case fees sc of
            None \<Rightarrow> False
          | Some fs \<Rightarrow> list_all (\<lambda>(k, node). group_populated node) fs))"

definition populated :: "FeesPerInvoice \<Rightarrow> bool" where
  "populated t = list_all (\<lambda>(k, sub). sub_populated sub) t"

text \<open>
  Keys that lodash reads as one path segment: no dot and no bracket. Identifiers of
  subscriptions, charges and fees are of this kind.
\<close>

definition path_safe :: "string \<Rightarrow> bool" where
  "path_safe k = list_all (\<lambda>c. c \<noteq> CHR ''.'' \<and> c \<noteq> CHR ''['' \<and> c \<noteq> CHR '']'') k"

definition group_safe :: "FeeGroup \<Rightarrow> bool" where
  "group_safe node =
     (case node of
        AsFromFee fee \<Rightarrow> True
      | AsGroupedFee w \<Rightarrow>
         (case grouped w of None \<Rightarrow> True | Some gs \<Rightarrow> list_all (\<lambda>(k, fee). path_safe k) gs))"

definition sub_safe :: "SubInvoice option \<Rightarrow> bool" where
  "sub_safe sub =
     (case sub of
        None \<Rightarrow> True
      | Some sc \<Rightarrow>
         (case fees sc of
            None \<Rightarrow> True
          | Some fs \<Rightarrow> list_all (\<lambda>(k, node). path_safe k \<and> group_safe node) fs))"

definition safe_keys :: "FeesPerInvoice \<Rightarrow> bool" where
  "safe_keys t = list_all (\<lambda>(k, sub). path_safe k \<and> sub_safe sub) t"

text \<open>
  The ruleset the specification describes for a tree: the same shape, with at every leaf
  the rule whose upper bound is the leaf's \<^verbatim>\<open>maxAmount\<close> in major units.
\<close>

definition mirror_group :: "CurrencyEnum list \<Rightarrow> CurrencyEnum \<Rightarrow> FeeGroup \<Rightarrow> FeeGroupSchema" where
  "mirror_group threeDecimals currency node =
     (case node of
        AsFromFee fee \<Rightarrow>
          SimpleFee (simpleFeeSchema threeDecimals (Some (maxAmount fee)) currency)
      | AsGroupedFee w \<Rightarrow>
          GroupedShape
            (case grouped w of
               None \<Rightarrow> []
             | Some gs \<Rightarrow>
                 map (\<lambda>(feeKey, fee).
                        (feeKey, simpleFeeSchema threeDecimals (Some (maxAmount fee)) currency))
                     gs))"

definition mirror_sub ::
  "CurrencyEnum list \<Rightarrow> CurrencyEnum \<Rightarrow> SubInvoice option \<Rightarrow> (string \<times> FeeGroupSchema) list" where
  "mirror_sub threeDecimals currency sub =
     (case sub of
        None \<Rightarrow> []
      | Some sc \<Rightarrow>
         (case fees sc of
            None \<Rightarrow> []
          | Some fs \<Rightarrow>
              map (\<lambda>(groupKey, node). (groupKey, mirror_group threeDecimals currency node)) fs))"

definition mirror_schema :: "CurrencyEnum list \<Rightarrow> CurrencyEnum \<Rightarrow> FeesPerInvoice \<Rightarrow> FeesSchema" where
  "mirror_schema threeDecimals currency t =
     map (\<lambda>(subKey, sub). (subKey, mirror_sub threeDecimals currency sub)) t"

text \<open>The positions of the leaf rules of a ruleset, in the order of its fields.\<close>

definition schema_paths :: "FeesSchema \<Rightarrow> leaf_path list" where
  "schema_paths schema =
     concat (map (\<lambda>(subKey, group_schemas).
       concat (map (\<lambda>(groupKey, gschema).
         (case gschema of
            SimpleFee leaf_schema \<Rightarrow> [(subKey, groupKey, None)]
          | GroupedShape field_schemas \<Rightarrow>
              map (\<lambda>(feeKey, leaf_schema). (subKey, groupKey, Some feeKey)) field_schemas))
         group_schemas))
       schema)"

text \<open>
  How each fee-group is classified: \<open>None\<close> for a bare leaf, the keys of the inner leaves
  for a grouped wrapper. Once for a ruleset, once for a tree.
\<close>

definition schema_shape :: "FeesSchema \<Rightarrow> (string \<times> (string \<times> string list option) list) list" where
  "schema_shape schema =
     map (\<lambda>(subKey, group_schemas).
            (subKey,
             map (\<lambda>(groupKey, gschema).
                    (groupKey,
                     (case gschema of
                        SimpleFee leaf_schema \<Rightarrow> None
                      | GroupedShape field_schemas \<Rightarrow> Some (map fst field_schemas))))
                 group_schemas))
         schema"

definition tree_shape :: "FeesPerInvoice \<Rightarrow> (string \<times> (string \<times> string list option) list) list" where
  "tree_shape t =
     map (\<lambda>(subKey, sub).
            (subKey,
             (case sub of
                None \<Rightarrow> []
              | Some sc \<Rightarrow>
                 (case fees sc of
                    None \<Rightarrow> []
                  | Some fs \<Rightarrow>
                      map (\<lambda>(groupKey, node).
                             (groupKey,
                              (case node of
                                 AsFromFee fee \<Rightarrow> None
                               | AsGroupedFee w \<Rightarrow>
                                   Some (case grouped w of
                                           None \<Rightarrow> []
                                         | Some gs \<Rightarrow> map fst gs))))
                          fs))))
         t"

section \<open>Auxiliary definitions\<close>

text \<open>The line items of the checked leaves of a walk.\<close>

definition walk_items ::
  "CurrencyEnum list \<Rightarrow> CurrencyEnum \<Rightarrow> (leaf_path \<times> FromFee) list \<Rightarrow> CreditNoteItemInput list" where
  "walk_items tbl cur w = map (item_of tbl cur) (filter checked (map snd w))"

text \<open>
  The item of the add-on fee: one item when the add-on fee is there and its value is not 0,
  none otherwise.
\<close>

definition addOn_items :: "CurrencyEnum list \<Rightarrow> CurrencyEnum \<Rightarrow> CreditNoteForm \<Rightarrow> CreditNoteItemInput list" where
  "addOn_items tbl cur form =
     (case form_addOnFee form of
        None \<Rightarrow> []
      | Some addOn \<Rightarrow> if fee_value addOn = 0 then [] else [item_of tbl cur addOn])"

text \<open>
  The amount in minor units of the pay-back entries of one type: that of the first entry,
  and 0 when there is no entry or the first entry has no value.
\<close>

definition entry_cents :: "CurrencyEnum list \<Rightarrow> CurrencyEnum \<Rightarrow> PayBack list \<Rightarrow> int" where
  "entry_cents tbl cur entries =
     (case entries of
        [] \<Rightarrow> 0
      | p # rest \<Rightarrow>
         (case payBack_value p of
            None \<Rightarrow> 0
          | Some v \<Rightarrow> serializeAmount tbl v cur))"

text \<open>The path string that \<^verbatim>\<open>generateFeesSchema\<close> builds for a leaf position.\<close>

definition path_string :: "leaf_path \<Rightarrow> string" where
  "path_string p =
     (case p of
        (subKey, groupKey, None) \<Rightarrow> subKey @ ''.fees.'' @ groupKey @ ''.maxAmount''
      | (subKey, groupKey, Some feeKey) \<Rightarrow>
          subKey @ ''.fees.'' @ groupKey @ ''.grouped.'' @ feeKey @ ''.maxAmount'')"

text \<open>
  A ruleset of the shape of a tree whose upper bounds are given position by position.
\<close>

definition group_with ::
  "CurrencyEnum list \<Rightarrow> CurrencyEnum \<Rightarrow> (leaf_path \<Rightarrow> rat option) \<Rightarrow> string \<Rightarrow> string \<Rightarrow>
   FeeGroup \<Rightarrow> FeeGroupSchema" where
  "group_with tbl cur B s g node =
     (case node of
        AsFromFee fee \<Rightarrow> SimpleFee (simpleFeeSchema tbl (B (s, g, None)) cur)
      | AsGroupedFee w \<Rightarrow>
          GroupedShape
            (case grouped w of
               None \<Rightarrow> []
             | Some gs \<Rightarrow>
                 map (\<lambda>(k, fee). (k, simpleFeeSchema tbl (B (s, g, Some k)) cur)) gs))"

definition sub_with ::
  "CurrencyEnum list \<Rightarrow> CurrencyEnum \<Rightarrow> (leaf_path \<Rightarrow> rat option) \<Rightarrow> string \<Rightarrow>
   SubInvoice option \<Rightarrow> (string \<times> FeeGroupSchema) list" where
  "sub_with tbl cur B s sub =
     (case sub of
        None \<Rightarrow> []
      | Some sc \<Rightarrow>
         (case fees sc of
            None \<Rightarrow> []
          | Some fs \<Rightarrow> map (\<lambda>(g, node). (g, group_with tbl cur B s g node)) fs))"

definition schema_with ::
  "CurrencyEnum list \<Rightarrow> CurrencyEnum \<Rightarrow> (leaf_path \<Rightarrow> rat option) \<Rightarrow> FeesPerInvoice \<Rightarrow> FeesSchema" where
  "schema_with tbl cur B t = map (\<lambda>(s, sub). (s, sub_with tbl cur B s sub)) t"

text \<open>
  What the generated ruleset accepts. The rule of a leaf of the initial tree applies to
  the leaf of the candidate at the same position, if the candidate has one: a checked
  candidate leaf needs a value of at least \<^verbatim>\<open>1e-16\<close> and at most the \<^verbatim>\<open>maxAmount\<close> of
  the initial leaf in major units.
\<close>

definition leaf_ok :: "CurrencyEnum list \<Rightarrow> CurrencyEnum \<Rightarrow> FromFee \<Rightarrow> FromFee \<Rightarrow> bool" where
  "leaf_ok tbl cur initial cand =
     (checked cand \<longrightarrow>
        1 / 10 ^ 16 \<le> fee_value cand \<and>
        fee_value cand \<le> deserializeAmount tbl (maxAmount initial) cur)"

definition accepts :: "CurrencyEnum list \<Rightarrow> CurrencyEnum \<Rightarrow> FeesPerInvoice \<Rightarrow> FeesPerInvoice \<Rightarrow> bool" where
  "accepts tbl cur init cand =
     list_all (\<lambda>(p, initial).
                 case leaf_at cand p of
                   None \<Rightarrow> True
                 | Some fee \<Rightarrow> leaf_ok tbl cur initial fee)
              (tree_walk init)"

text \<open>
  The same with the lower bound as the specification words it: a value strictly greater
  than 0.
\<close>

definition leaf_ok_positive :: "CurrencyEnum list \<Rightarrow> CurrencyEnum \<Rightarrow> FromFee \<Rightarrow> FromFee \<Rightarrow> bool" where
  "leaf_ok_positive tbl cur initial cand =
     (checked cand \<longrightarrow>
        0 < fee_value cand \<and>
        fee_value cand \<le> deserializeAmount tbl (maxAmount initial) cur)"

definition accepts_positive ::
  "CurrencyEnum list \<Rightarrow> CurrencyEnum \<Rightarrow> FeesPerInvoice \<Rightarrow> FeesPerInvoice \<Rightarrow> bool" where
  "accepts_positive tbl cur init cand =
     list_all (\<lambda>(p, initial).
                 case leaf_at cand p of
                   None \<Rightarrow> True
                 | Some fee \<Rightarrow> leaf_ok_positive tbl cur initial fee)
              (tree_walk init)"

text \<open>Changing every leaf of a tree, keys and shape untouched.\<close>

definition map_group :: "(FromFee \<Rightarrow> FromFee) \<Rightarrow> FeeGroup \<Rightarrow> FeeGroup" where
  "map_group h node =
     (case node of
        AsFromFee fee \<Rightarrow> AsFromFee (h fee)
      | AsGroupedFee w \<Rightarrow>
          AsGroupedFee
            (w\<lparr>grouped := (case grouped w of
                              None \<Rightarrow> None
                            | Some gs \<Rightarrow> Some (map (\<lambda>(k, fee). (k, h fee)) gs))\<rparr>))"

definition map_sub :: "(FromFee \<Rightarrow> FromFee) \<Rightarrow> SubInvoice option \<Rightarrow> SubInvoice option" where
  "map_sub h sub =
     (case sub of
        None \<Rightarrow> None
      | Some sc \<Rightarrow>
          Some (sc\<lparr>fees := (case fees sc of
                                None \<Rightarrow> None
                              | Some fs \<Rightarrow> Some (map (\<lambda>(g, node). (g, map_group h node)) fs))\<rparr>))"

definition map_leaves :: "(FromFee \<Rightarrow> FromFee) \<Rightarrow> FeesPerInvoice \<Rightarrow> FeesPerInvoice" where
  "map_leaves h t = map (\<lambda>(s, sub). (s, map_sub h sub)) t"

text \<open>
  Two trees differ only in the values of unchecked leaves when they are equal once these
  values are reset; they differ only in what is neither \<^verbatim>\<open>checked\<close> nor \<^verbatim>\<open>value\<close>
  when they are equal once \<^verbatim>\<open>id\<close> and \<^verbatim>\<open>maxAmount\<close> are reset.
\<close>

definition unchecked_values_cleared :: "FeesPerInvoice \<Rightarrow> FeesPerInvoice" where
  "unchecked_values_cleared t =
     map_leaves (\<lambda>fee. if checked fee then fee else fee\<lparr>fee_value := 0\<rparr>) t"

definition checked_and_value_only :: "FeesPerInvoice \<Rightarrow> FeesPerInvoice" where
  "checked_and_value_only t = map_leaves (\<lambda>fee. fee\<lparr>fee_id := [], maxAmount := 0\<rparr>) t"

section \<open>Example inputs\<close>

text \<open>
  The two examples of the specification in one tree: a bare leaf \<^verbatim>\<open>f1\<close> and a grouped
  fee-group with a checked leaf \<^verbatim>\<open>f2\<close> and an unchecked leaf \<^verbatim>\<open>f3\<close>.
\<close>

definition example_tree :: FeesPerInvoice where
  "example_tree =
     [(''invA'', Some \<lparr>fees = Some
        [(''g1'', AsFromFee \<lparr>fee_id = ''f1'', checked = True, fee_value = 10, maxAmount = 5000\<rparr>),
         (''g2'', AsGroupedFee \<lparr>grouped = Some
            [(''s1'', \<lparr>fee_id = ''f2'', checked = True, fee_value = 2, maxAmount = 1000\<rparr>),
             (''s2'', \<lparr>fee_id = ''f3'', checked = False, fee_value = 7, maxAmount = 1000\<rparr>)]\<rparr>)]\<rparr>)]"

definition example_form :: CreditNoteForm where
  "example_form =
     \<lparr>form_reason = Some ''other'', form_description = None,
      form_payBack = Some [\<lparr>payBack_type = Some credit, payBack_value = Some 12\<rparr>],
      form_fees = Some example_tree, form_addOnFee = None\<rparr>"

definition example_schema :: FeesSchema where
  "example_schema =
     [(''invA'',
       [(''g1'', SimpleFee \<lparr>value_min = 1 / 10 ^ 16, value_max = Some 50\<rparr>),
        (''g2'', GroupedShape
           [(''s1'', \<lparr>value_min = 1 / 10 ^ 16, value_max = Some 10\<rparr>),
            (''s2'', \<lparr>value_min = 1 / 10 ^ 16, value_max = Some 10\<rparr>)])])]"

text \<open>The same tree with another value at the unchecked leaf \<^verbatim>\<open>f3\<close>.\<close>

definition example_tree_other_value :: FeesPerInvoice where
  "example_tree_other_value =
     [(''invA'', Some \<lparr>fees = Some
        [(''g1'', AsFromFee \<lparr>fee_id = ''f1'', checked = True, fee_value = 10, maxAmount = 5000\<rparr>),
         (''g2'', AsGroupedFee \<lparr>grouped = Some
            [(''s1'', \<lparr>fee_id = ''f2'', checked = True, fee_value = 2, maxAmount = 1000\<rparr>),
             (''s2'', \<lparr>fee_id = ''f3'', checked = False, fee_value = 99, maxAmount = 1000\<rparr>)]\<rparr>)]\<rparr>)]"

text \<open>The same tree with other \<^verbatim>\<open>maxAmount\<close> fields.\<close>

definition example_tree_other_max :: FeesPerInvoice where
  "example_tree_other_max =
     [(''invA'', Some \<lparr>fees = Some
        [(''g1'', AsFromFee \<lparr>fee_id = ''f1'', checked = True, fee_value = 10, maxAmount = 1\<rparr>),
         (''g2'', AsGroupedFee \<lparr>grouped = Some
            [(''s1'', \<lparr>fee_id = ''f2'', checked = True, fee_value = 2, maxAmount = 1\<rparr>),
             (''s2'', \<lparr>fee_id = ''f3'', checked = False, fee_value = 7, maxAmount = 1\<rparr>)]\<rparr>)]\<rparr>)]"

text \<open>A form with an add-on fee and a pay-back split between credit and refund.\<close>

definition example_addOn_form :: CreditNoteForm where
  "example_addOn_form =
     \<lparr>form_reason = Some ''other'', form_description = Some ''partial'',
      form_payBack = Some [\<lparr>payBack_type = Some refund, payBack_value = Some (5 / 2)\<rparr>,
                           \<lparr>payBack_type = Some credit, payBack_value = Some 12\<rparr>],
      form_fees = Some example_tree,
      form_addOnFee =
        Some \<lparr>fee_id = ''a1'', checked = False, fee_value = 5, maxAmount = 900\<rparr>\<rparr>"

text \<open>A tree whose only leaf is checked with value 0, and a form with a zero add-on fee.\<close>

definition zero_tree :: FeesPerInvoice where
  "zero_tree =
     [(''invA'', Some \<lparr>fees = Some
        [(''g1'', AsFromFee \<lparr>fee_id = ''f1'', checked = True, fee_value = 0, maxAmount = 5000\<rparr>)]\<rparr>)]"

definition zero_form :: CreditNoteForm where
  "zero_form =
     \<lparr>form_reason = None, form_description = None, form_payBack = None,
      form_fees = Some zero_tree,
      form_addOnFee =
        Some \<lparr>fee_id = ''a1'', checked = True, fee_value = 0, maxAmount = 900\<rparr>\<rparr>"

text \<open>A tree whose only leaf is checked with the positive value \<^verbatim>\<open>1e-17\<close>.\<close>

definition tiny_tree :: FeesPerInvoice where
  "tiny_tree =
     [(''invA'', Some \<lparr>fees = Some
        [(''g1'', AsFromFee \<lparr>fee_id = ''f1'', checked = True, fee_value = 1 / 10 ^ 17,
                             maxAmount = 5000\<rparr>)]\<rparr>)]"

definition tiny_schema :: FeesSchema where
  "tiny_schema =
     [(''invA'', [(''g1'', SimpleFee \<lparr>value_min = 1 / 10 ^ 16, value_max = Some 50\<rparr>)])]"

text \<open>
  A tree whose sub-invoice key contains a dot, and the ruleset generated from it: the path
  lookup finds no \<^verbatim>\<open>maxAmount\<close>, so the bound of the leaf rule is \<^verbatim>\<open>NaN\<close>.
\<close>

definition dotted_tree :: FeesPerInvoice where
  "dotted_tree =
     [(''sub.1'', Some \<lparr>fees = Some
        [(''g1'', AsFromFee \<lparr>fee_id = ''f1'', checked = True, fee_value = 10,
                             maxAmount = 5000\<rparr>)]\<rparr>)]"

definition dotted_schema :: FeesSchema where
  "dotted_schema =
     [(''sub.1'', [(''g1'', SimpleFee \<lparr>value_min = 1 / 10 ^ 16, value_max = None\<rparr>)])]"

text \<open>
  Two partial trees: a sub-invoice group whose \<^verbatim>\<open>fees\<close> map is \<^verbatim>\<open>undefined\<close>, and a
  grouped fee-group whose \<^verbatim>\<open>grouped\<close> map is \<^verbatim>\<open>undefined\<close>.
\<close>

definition tree_without_fees :: FeesPerInvoice where
  "tree_without_fees = [(''invA'', Some \<lparr>fees = None\<rparr>)]"

definition tree_without_grouped :: FeesPerInvoice where
  "tree_without_grouped =
     [(''invA'', Some \<lparr>fees = Some [(''g1'', AsGroupedFee \<lparr>grouped = None\<rparr>)]\<rparr>)]"

definition form_of_tree :: "FeesPerInvoice \<Rightarrow> CreditNoteForm" where
  "form_of_tree t =
     \<lparr>form_reason = None, form_description = None, form_payBack = None,
      form_fees = Some t, form_addOnFee = None\<rparr>"

section \<open>Folding over the keys of an object\<close>

lemma js_error_is_TypeError: "(e :: js_error) = TypeError"
  by (cases e) simp

lemma reduce_append_ok:
  assumes "\<And>x acc. x \<in> set xs \<Longrightarrow>
             f acc x = (if ok x then Inr (acc @ g x) else Inl TypeError)"
  shows "reduce f acc xs =
           (if list_all ok xs then Inr (acc @ concat (map g xs)) else Inl TypeError)"
  using assms by (induction xs arbitrary: acc) auto

lemma update_fresh: "k \<notin> fst ` set al \<Longrightarrow> AList.update k v al = al @ [(k, v)]"
  by (induction al) auto

lemma reduce_update_ok:
  assumes "\<And>k acc. k \<in> set ks \<Longrightarrow>
             f acc k = (if ok k then Inr (AList.update k (h k) acc) else Inl TypeError)"
    and "distinct ks" and "set ks \<inter> fst ` set acc = {}"
  shows "reduce f acc ks =
           (if list_all ok ks then Inr (acc @ map (\<lambda>k. (k, h k)) ks) else Inl TypeError)"
  using assms
proof (induction ks arbitrary: acc)
  case Nil
  then show ?case by simp
next
  case (Cons k ks)
  have step: "f acc k = (if ok k then Inr (AList.update k (h k) acc) else Inl TypeError)"
    using Cons.prems(1) by simp
  show ?case
  proof (cases "ok k")
    case False
    then show ?thesis using step by simp
  next
    case True
    have fresh: "k \<notin> fst ` set acc" using Cons.prems(3) by auto
    have upd: "AList.update k (h k) acc = acc @ [(k, h k)]"
      using fresh by (rule update_fresh)
    have disj: "set ks \<inter> fst ` set (acc @ [(k, h k)]) = {}"
      using Cons.prems(2,3) by auto
    have "reduce f (acc @ [(k, h k)]) ks =
            (if list_all ok ks then Inr ((acc @ [(k, h k)]) @ map (\<lambda>k. (k, h k)) ks)
             else Inl TypeError)"
      using Cons.prems(1,2) disj by (intro Cons.IH) auto
    then show ?thesis using True step upd by simp
  qed
qed

lemma reduce_cong:
  "(\<And>x acc. x \<in> set xs \<Longrightarrow> f acc x = g acc x) \<Longrightarrow> reduce f acc xs = reduce g acc xs"
  by (induction xs arbitrary: acc) (auto split: sum.splits)

lemma keys_lookup:
  "distinct (map fst kvs) \<Longrightarrow> (k, v) \<in> set kvs \<Longrightarrow> map_of kvs k = Some v"
  by (rule map_of_is_SomeI)

lemma keys_list_all:
  "distinct (map fst kvs) \<Longrightarrow>
   list_all (\<lambda>k. P k (map_of kvs k)) (map fst kvs) = list_all (\<lambda>(k, v). P k (Some v)) kvs"
  by (auto simp: list_all_iff dest: keys_lookup)

lemma keys_concat_map:
  assumes "distinct (map fst kvs)"
  shows "concat (map (\<lambda>k. G k (map_of kvs k)) (map fst kvs)) =
         concat (map (\<lambda>(k, v). G k (Some v)) kvs)"
proof -
  have "map (\<lambda>k. G k (map_of kvs k)) (map fst kvs) = map (\<lambda>(k, v). G k (Some v)) kvs"
    using assms by (auto simp: keys_lookup)
  then show ?thesis by (simp only:)
qed

lemma keys_map:
  assumes "distinct (map fst kvs)"
  shows "map (\<lambda>k. (k, H k (map_of kvs k))) (map fst kvs) = map (\<lambda>(k, v). (k, H k (Some v))) kvs"
  using assms by (auto simp: keys_lookup)

lemma concat_filter_items:
  "concat (map (\<lambda>(k, v). if P v then [F v] else []) kvs) = map F (filter P (map snd kvs))"
  by (induction kvs) auto

section \<open>The serializer's walk\<close>

lemma serialize_fee_step:
  assumes "k \<in> set (map fst gs)"
  shows "serialize_fee tbl cur (Some gs) acc k =
           (if True then
              Inr (acc @ (case map_of gs k of
                            None \<Rightarrow> []
                          | Some fee \<Rightarrow> if checked fee then [item_of tbl cur fee] else []))
            else Inl TypeError)"
proof -
  obtain fee where "map_of gs k = Some fee"
    using assms by (metis map_of_eq_None_iff not_None_eq set_map)
  then show ?thesis by (simp add: serialize_fee_def item_of_def)
qed

lemma serialize_fee_reduce:
  assumes "distinct (map fst gs)"
  shows "reduce (serialize_fee tbl cur (Some gs)) acc (map fst gs) =
           Inr (acc @ map (item_of tbl cur) (filter checked (map snd gs)))"
proof -
  let ?G = "\<lambda>(k::string) (r::FromFee option). case r of
              None \<Rightarrow> []
            | Some fee \<Rightarrow> if checked fee then [item_of tbl cur fee] else []"
  have "reduce (serialize_fee tbl cur (Some gs)) acc (map fst gs) =
          (if list_all (\<lambda>k. True) (map fst gs)
           then Inr (acc @ concat (map (\<lambda>k. ?G k (map_of gs k)) (map fst gs)))
           else Inl TypeError)"
    by (rule reduce_append_ok) (simp add: serialize_fee_step)
  also have "\<dots> = Inr (acc @ concat (map (\<lambda>k. ?G k (map_of gs k)) (map fst gs)))"
    by (simp add: list_all_iff)
  also have "concat (map (\<lambda>k. ?G k (map_of gs k)) (map fst gs)) =
             concat (map (\<lambda>(k, v). ?G k (Some v)) gs)"
    using assms by (rule keys_concat_map)
  also have "\<dots> = map (item_of tbl cur) (filter checked (map snd gs))"
    using concat_filter_items[of checked "item_of tbl cur" gs] by simp
  finally show ?thesis .
qed

lemma walk_items_concat:
  "walk_items tbl cur (concat ws) = concat (map (walk_items tbl cur) ws)"
  by (induction ws) (simp_all add: walk_items_def)

lemma walk_items_group_walk:
  "walk_items tbl cur (group_walk s g (AsGroupedFee w)) =
     (case grouped w of
        None \<Rightarrow> []
      | Some gs \<Rightarrow> map (item_of tbl cur) (filter checked (map snd gs)))"
  by (simp add: walk_items_def group_walk_def comp_def case_prod_unfold split: option.splits)

lemma serialize_group_step:
  assumes fs: "fees sc = Some fs"
    and k: "k \<in> set (map fst fs)"
    and d: "list_all (\<lambda>(k, node). group_distinct node) fs"
  shows "serialize_group tbl cur (Some sc) acc k =
           (if (case map_of fs k of None \<Rightarrow> False | Some node \<Rightarrow> group_populated node)
            then Inr (acc @ (case map_of fs k of
                               None \<Rightarrow> []
                             | Some node \<Rightarrow> walk_items tbl cur (group_walk s k node)))
            else Inl TypeError)"
proof -
  obtain node where node: "map_of fs k = Some node"
    using k by (metis map_of_eq_None_iff not_None_eq set_map)
  then have "(k, node) \<in> set fs" by (rule map_of_SomeD)
  then have gd: "group_distinct node"
    using d by (auto simp: list_all_iff)
  show ?thesis
  proof (cases node)
    case (AsFromFee fee)
    then show ?thesis
      using fs node
      by (simp add: serialize_group_def group_populated_def walk_items_def group_walk_def
          item_of_def)
  next
    case (AsGroupedFee w)
    show ?thesis
    proof (cases "grouped w")
      case None
      then show ?thesis
        using fs node AsGroupedFee
        by (simp add: serialize_group_def group_populated_def Object_keys_def)
    next
      case (Some gs)
      then have "distinct (map fst gs)"
        using gd AsGroupedFee by (simp add: group_distinct_def)
      then have "reduce (serialize_fee tbl cur (Some gs)) [] (map fst gs) =
                   Inr ([] @ map (item_of tbl cur) (filter checked (map snd gs)))"
        by (rule serialize_fee_reduce)
      then show ?thesis
        using fs node AsGroupedFee Some
        by (simp add: serialize_group_def group_populated_def Object_keys_def
            walk_items_group_walk)
    qed
  qed
qed

lemma serialize_group_reduce:
  assumes fs: "fees sc = Some fs"
    and dk: "distinct (map fst fs)"
    and d: "list_all (\<lambda>(k, node). group_distinct node) fs"
  shows "reduce (serialize_group tbl cur (Some sc)) acc (map fst fs) =
           (if list_all (\<lambda>(k, node). group_populated node) fs
            then Inr (acc @ walk_items tbl cur (sub_walk s (Some sc)))
            else Inl TypeError)"
proof -
  let ?ok = "\<lambda>(k::string) r. case r of None \<Rightarrow> False | Some node \<Rightarrow> group_populated node"
  let ?G = "\<lambda>k r. case r of None \<Rightarrow> [] | Some node \<Rightarrow> walk_items tbl cur (group_walk s k node)"
  have "reduce (serialize_group tbl cur (Some sc)) acc (map fst fs) =
          (if list_all (\<lambda>k. ?ok k (map_of fs k)) (map fst fs)
           then Inr (acc @ concat (map (\<lambda>k. ?G k (map_of fs k)) (map fst fs)))
           else Inl TypeError)"
    by (rule reduce_append_ok) (rule serialize_group_step[OF fs _ d])
  also have "list_all (\<lambda>k. ?ok k (map_of fs k)) (map fst fs) =
             list_all (\<lambda>(k, v). ?ok k (Some v)) fs"
    using dk by (rule keys_list_all)
  also have "concat (map (\<lambda>k. ?G k (map_of fs k)) (map fst fs)) =
             concat (map (\<lambda>(k, v). ?G k (Some v)) fs)"
    using dk by (rule keys_concat_map)
  also have "concat (map (\<lambda>(k, v). ?G k (Some v)) fs) = walk_items tbl cur (sub_walk s (Some sc))"
    using fs by (simp add: sub_walk_def walk_items_concat comp_def case_prod_unfold)
  finally show ?thesis by (simp add: case_prod_unfold)
qed

lemma serialize_sub_step:
  assumes k: "k \<in> set (map fst t)"
    and d: "list_all (\<lambda>(k, sub). sub_distinct sub) t"
  shows "serialize_sub tbl cur t acc k =
           (if (case map_of t k of None \<Rightarrow> False | Some sub \<Rightarrow> sub_populated sub)
            then Inr (acc @ (case map_of t k of
                               None \<Rightarrow> []
                             | Some sub \<Rightarrow> walk_items tbl cur (sub_walk k sub)))
            else Inl TypeError)"
proof -
  obtain sub where sub: "map_of t k = Some sub"
    using k by (metis map_of_eq_None_iff not_None_eq set_map)
  then have "(k, sub) \<in> set t" by (rule map_of_SomeD)
  then have sd: "sub_distinct sub"
    using d by (auto simp: list_all_iff)
  show ?thesis
  proof (cases sub)
    case None
    then show ?thesis
      using sub by (simp add: serialize_sub_def sub_populated_def Object_keys_def)
  next
    case (Some sc)
    show ?thesis
    proof (cases "fees sc")
      case None
      then show ?thesis
        using sub Some by (simp add: serialize_sub_def sub_populated_def Object_keys_def)
    next
      case fs: (Some fs)
      have "distinct (map fst fs)" and "list_all (\<lambda>(k, node). group_distinct node) fs"
        using sd Some fs by (simp_all add: sub_distinct_def)
      then have "reduce (serialize_group tbl cur (Some sc)) [] (map fst fs) =
                   (if list_all (\<lambda>(k, node). group_populated node) fs
                    then Inr ([] @ walk_items tbl cur (sub_walk k (Some sc)))
                    else Inl TypeError)"
        by (rule serialize_group_reduce[OF fs])
      then show ?thesis
        using sub Some fs by (simp add: serialize_sub_def sub_populated_def Object_keys_def)
    qed
  qed
qed

lemma serialize_tree_reduce:
  assumes "distinct_keys t"
  shows "reduce (serialize_sub tbl cur t) acc (map fst t) =
           (if populated t
            then Inr (acc @ map (item_of tbl cur) (filter checked (tree_leaves t)))
            else Inl TypeError)"
proof -
  have dk: "distinct (map fst t)" and d: "list_all (\<lambda>(k, sub). sub_distinct sub) t"
    using assms by (simp_all add: distinct_keys_def)
  let ?ok = "\<lambda>(k::string) r. case r of None \<Rightarrow> False | Some sub \<Rightarrow> sub_populated sub"
  let ?G = "\<lambda>k r. case r of None \<Rightarrow> [] | Some sub \<Rightarrow> walk_items tbl cur (sub_walk k sub)"
  have "reduce (serialize_sub tbl cur t) acc (map fst t) =
          (if list_all (\<lambda>k. ?ok k (map_of t k)) (map fst t)
           then Inr (acc @ concat (map (\<lambda>k. ?G k (map_of t k)) (map fst t)))
           else Inl TypeError)"
    by (rule reduce_append_ok) (rule serialize_sub_step[OF _ d])
  also have "list_all (\<lambda>k. ?ok k (map_of t k)) (map fst t) =
             list_all (\<lambda>(k, v). ?ok k (Some v)) t"
    using dk by (rule keys_list_all)
  also have "concat (map (\<lambda>k. ?G k (map_of t k)) (map fst t)) =
             concat (map (\<lambda>(k, v). ?G k (Some v)) t)"
    using dk by (rule keys_concat_map)
  also have "concat (map (\<lambda>(k, v). ?G k (Some v)) t) = walk_items tbl cur (tree_walk t)"
    by (simp add: tree_walk_def walk_items_concat comp_def case_prod_unfold)
  finally show ?thesis
    by (simp add: case_prod_unfold populated_def walk_items_def tree_leaves_def)
qed

section \<open>The generated ruleset\<close>

lemma schema_fee_reduce:
  assumes "distinct (map fst gs)"
  shows "reduce (schema_fee tbl cur (Some t) s g) [] (map fst gs) =
           Inr (map (\<lambda>(k, fee). (k, simpleFeeSchema tbl
                   (lodash_get t
                      (path_string (s, g, Some k))) cur)) gs)"
proof -
  let ?h = "\<lambda>k. simpleFeeSchema tbl
                   (lodash_get t
                      (path_string (s, g, Some k))) cur"
  have "reduce (schema_fee tbl cur (Some t) s g) [] (map fst gs) =
          (if list_all (\<lambda>k. True) (map fst gs)
           then Inr ([] @ map (\<lambda>k. (k, ?h k)) (map fst gs)) else Inl TypeError)"
    using assms by (intro reduce_update_ok) (simp_all add: schema_fee_def path_string_def)
  then show ?thesis
    by (simp add: list_all_iff comp_def case_prod_unfold)
qed

lemma schema_group_step:
  assumes k: "k \<in> set (map fst fs)"
    and d: "list_all (\<lambda>(k, node). group_distinct node) fs"
  shows "schema_group tbl cur (Some t) s (Some fs) acc k =
           (if (case map_of fs k of None \<Rightarrow> False | Some node \<Rightarrow> group_populated node)
            then Inr (AList.update k
                    (case map_of fs k of
                       None \<Rightarrow> GroupedShape []
                     | Some (AsFromFee fee) \<Rightarrow>
                         SimpleFee (simpleFeeSchema tbl
                           (lodash_get t
                              (path_string (s, k, None))) cur)
                     | Some (AsGroupedFee w) \<Rightarrow>
                         GroupedShape
                           (case grouped w of
                              None \<Rightarrow> []
                            | Some gs \<Rightarrow>
                                map (\<lambda>(fk, fee). (fk, simpleFeeSchema tbl
                                       (lodash_get t
                                          (path_string (s, k, Some fk))) cur)) gs))
                    acc)
            else Inl TypeError)"
proof -
  obtain node where node: "map_of fs k = Some node"
    using k by (metis map_of_eq_None_iff not_None_eq set_map)
  then have "(k, node) \<in> set fs" by (rule map_of_SomeD)
  then have gd: "group_distinct node"
    using d by (auto simp: list_all_iff)
  show ?thesis
  proof (cases node)
    case (AsFromFee fee)
    then show ?thesis
      using node by (simp add: schema_group_def group_populated_def path_string_def)
  next
    case (AsGroupedFee w)
    show ?thesis
    proof (cases "grouped w")
      case None
      then show ?thesis
        using node AsGroupedFee
        by (simp add: schema_group_def group_populated_def Object_keys_def)
    next
      case (Some gs)
      then have "distinct (map fst gs)"
        using gd AsGroupedFee by (simp add: group_distinct_def)
      then show ?thesis
        using node AsGroupedFee Some
        by (simp add: schema_group_def group_populated_def Object_keys_def
            schema_fee_reduce)
    qed
  qed
qed

lemma schema_sub_step:
  assumes k: "k \<in> set (map fst t)"
    and d: "list_all (\<lambda>(k, sub). sub_distinct sub) t"
  shows "schema_sub tbl cur (Some t) acc k =
           (if (case map_of t k of None \<Rightarrow> False | Some sub \<Rightarrow> sub_populated sub)
            then Inr (AList.update k
                   (case map_of t k of
                      Some (Some sc) \<Rightarrow>
                        (case fees sc of
                           None \<Rightarrow> []
                         | Some fs \<Rightarrow>
                            map (\<lambda>(g, node).
                               (g, case node of
                                     AsFromFee fee \<Rightarrow>
                                       SimpleFee (simpleFeeSchema tbl
                                         (lodash_get t (path_string (k, g, None))) cur)
                                   | AsGroupedFee w \<Rightarrow>
                                       GroupedShape
                                         (case grouped w of
                                            None \<Rightarrow> []
                                          | Some gs \<Rightarrow>
                                              map (\<lambda>(fk, fee).
                                                     (fk, simpleFeeSchema tbl
                                                        (lodash_get t (path_string (k, g, Some fk))) cur))
                                                  gs)))
                            fs)
                    | _ \<Rightarrow> [])
                   acc)
            else Inl TypeError)"
proof -
  obtain sub where sub: "map_of t k = Some sub"
    using k by (metis map_of_eq_None_iff not_None_eq set_map)
  then have "(k, sub) \<in> set t" by (rule map_of_SomeD)
  then have sd: "sub_distinct sub"
    using d by (auto simp: list_all_iff)
  show ?thesis
  proof (cases sub)
    case None
    then show ?thesis
      using sub by (simp add: schema_sub_def sub_populated_def Object_keys_def)
  next
    case (Some sc)
    show ?thesis
    proof (cases "fees sc")
      case None
      then show ?thesis
        using sub Some by (simp add: schema_sub_def sub_populated_def Object_keys_def)
    next
      case fs: (Some fs)
      have dk: "distinct (map fst fs)" and gd: "list_all (\<lambda>(k, node). group_distinct node) fs"
        using sd Some fs by (simp_all add: sub_distinct_def)
      let ?ok = "\<lambda>(g::string) r. case r of None \<Rightarrow> False | Some node \<Rightarrow> group_populated node"
      let ?H = "\<lambda>g r. case r of
                       None \<Rightarrow> GroupedShape []
                     | Some (AsFromFee fee) \<Rightarrow>
                         SimpleFee (simpleFeeSchema tbl
                           (lodash_get t (path_string (k, g, None))) cur)
                     | Some (AsGroupedFee w) \<Rightarrow>
                         GroupedShape
                           (case grouped w of
                              None \<Rightarrow> []
                            | Some gs \<Rightarrow>
                                map (\<lambda>(fk, fee). (fk, simpleFeeSchema tbl
                                       (lodash_get t (path_string (k, g, Some fk))) cur)) gs)"
      have "reduce (schema_group tbl cur (Some t) k (Some fs)) [] (map fst fs) =
              (if list_all (\<lambda>g. ?ok g (map_of fs g)) (map fst fs)
               then Inr ([] @ map (\<lambda>g. (g, ?H g (map_of fs g))) (map fst fs))
               else Inl TypeError)"
        using dk by (intro reduce_update_ok) (simp_all add: schema_group_step[OF _ gd])
      also have "list_all (\<lambda>g. ?ok g (map_of fs g)) (map fst fs) =
                 list_all (\<lambda>(g, v). ?ok g (Some v)) fs"
        using dk by (rule keys_list_all)
      also have "map (\<lambda>g. (g, ?H g (map_of fs g))) (map fst fs) =
                 map (\<lambda>(g, v). (g, ?H g (Some v))) fs"
        using dk by (rule keys_map)
      finally show ?thesis
        using sub Some fs
        by (simp add: schema_sub_def sub_populated_def Object_keys_def case_prod_unfold)
    qed
  qed
qed

lemma generate_reduce:
  assumes "distinct_keys t"
  shows "generateFeesSchema tbl (Some t) cur =
           (if populated t
            then Inr (schema_with tbl cur (\<lambda>p. lodash_get t (path_string p)) t)
            else Inl TypeError)"
proof -
  have dk: "distinct (map fst t)" and d: "list_all (\<lambda>(k, sub). sub_distinct sub) t"
    using assms by (simp_all add: distinct_keys_def)
  let ?ok = "\<lambda>(k::string) r. case r of None \<Rightarrow> False | Some sub \<Rightarrow> sub_populated sub"
  let ?H = "\<lambda>k r. (case r of
                      Some (Some sc) \<Rightarrow>
                        (case fees sc of
                           None \<Rightarrow> []
                         | Some fs \<Rightarrow>
                            map (\<lambda>(g, node).
                               (g, case node of
                                     AsFromFee fee \<Rightarrow>
                                       SimpleFee (simpleFeeSchema tbl
                                         (lodash_get t (path_string (k, g, None))) cur)
                                   | AsGroupedFee w \<Rightarrow>
                                       GroupedShape
                                         (case grouped w of
                                            None \<Rightarrow> []
                                          | Some gs \<Rightarrow>
                                              map (\<lambda>(fk, fee).
                                                     (fk, simpleFeeSchema tbl
                                                        (lodash_get t (path_string (k, g, Some fk))) cur))
                                                  gs)))
                            fs)
                    | _ \<Rightarrow> [])"
  have "reduce (schema_sub tbl cur (Some t)) [] (map fst t) =
          (if list_all (\<lambda>k. ?ok k (map_of t k)) (map fst t)
           then Inr ([] @ map (\<lambda>k. (k, ?H k (map_of t k))) (map fst t))
           else Inl TypeError)"
    using dk by (intro reduce_update_ok) (simp_all add: schema_sub_step[OF _ d])
  also have "list_all (\<lambda>k. ?ok k (map_of t k)) (map fst t) =
             list_all (\<lambda>(k, v). ?ok k (Some v)) t"
    using dk by (rule keys_list_all)
  also have "map (\<lambda>k. (k, ?H k (map_of t k))) (map fst t) =
             map (\<lambda>(k, v). (k, ?H k (Some v))) t"
    using dk by (rule keys_map)
  finally have "reduce (schema_sub tbl cur (Some t)) [] (map fst t) =
     (if list_all (\<lambda>(k, v). ?ok k (Some v)) t
      then Inr ([] @ map (\<lambda>(k, v). (k, ?H k (Some v))) t) else Inl TypeError)" .
  moreover have "map (\<lambda>(k, v). (k, ?H k (Some v))) t =
                 schema_with tbl cur (\<lambda>p. lodash_get t (path_string p)) t"
    unfolding schema_with_def sub_with_def group_with_def
    by (intro map_cong refl) (auto split: option.splits)
  ultimately show ?thesis
    by (simp add: generateFeesSchema_def populated_def case_prod_unfold)
qed

section \<open>Paths and upper bounds\<close>

lemma stringToPath_nodot: "CHR ''.'' \<notin> set a \<Longrightarrow> stringToPath a = [a]"
  by (induction a) auto

lemma stringToPath_seg:
  "CHR ''.'' \<notin> set a \<Longrightarrow> stringToPath (a @ CHR ''.'' # rest) = a # stringToPath rest"
  by (induction a) auto

lemma path_safe_nodot: "path_safe k \<Longrightarrow> CHR ''.'' \<notin> set k"
  by (auto simp: path_safe_def list_all_iff)

lemma stringToPath_leaf:
  assumes "path_safe s" "path_safe g"
  shows "stringToPath (s @ ''.fees.'' @ g @ ''.maxAmount'') = [s, ''fees'', g, ''maxAmount'']"
  using assms by (simp add: stringToPath_seg path_safe_nodot)

lemma stringToPath_grouped:
  assumes "path_safe s" "path_safe g" "path_safe k"
  shows "stringToPath (s @ ''.fees.'' @ g @ ''.grouped.'' @ k @ ''.maxAmount'') =
           [s, ''fees'', g, ''grouped'', k, ''maxAmount'']"
  using assms by (simp add: stringToPath_seg path_safe_nodot)

lemma path_string_dot: "CHR ''.'' \<in> set (path_string p)"
  by (cases p) (auto simp: path_string_def split: option.splits)

lemma path_string_not_key:
  assumes "safe_keys t"
  shows "path_string p \<notin> set (map fst t)"
proof
  assume "path_string p \<in> set (map fst t)"
  then have "path_safe (path_string p)"
    using assms by (auto simp: safe_keys_def list_all_iff)
  then show False
    using path_string_dot[of p] path_safe_nodot by blast
qed

lemma lodash_get_leaf_at:
  assumes "safe_keys t" "path_safe s" "path_safe g"
    and "case ko of None \<Rightarrow> True | Some k \<Rightarrow> path_safe k"
  shows "lodash_get t (path_string (s, g, ko)) = map_option maxAmount (leaf_at t (s, g, ko))"
proof (cases ko)
  case None
  have "lodash_get t (path_string (s, g, None)) = baseGet t [s, ''fees'', g, ''maxAmount'']"
    using path_string_not_key[OF assms(1), of "(s, g, None)"] stringToPath_leaf[OF assms(2,3)]
    by (simp add: lodash_get_def path_string_def)
  then show ?thesis
    using None by (simp add: leaf_at_def split: option.splits FeeGroup.splits)
next
  case (Some k)
  then have "path_safe k" using assms(4) by simp
  then have "lodash_get t (path_string (s, g, Some k)) =
               baseGet t [s, ''fees'', g, ''grouped'', k, ''maxAmount'']"
    using path_string_not_key[OF assms(1), of "(s, g, Some k)"]
      stringToPath_grouped[OF assms(2,3)]
    by (simp add: lodash_get_def path_string_def)
  then show ?thesis
    using Some by (simp add: leaf_at_def split: option.splits FeeGroup.splits)
qed

lemma group_with_mirror:
  assumes "\<And>p fee. (p, fee) \<in> set (group_walk s g node) \<Longrightarrow> B p = Some (maxAmount fee)"
  shows "group_with tbl cur B s g node = mirror_group tbl cur node"
proof (cases node)
  case (AsFromFee fee)
  then show ?thesis
    using assms[of "(s, g, None)" fee]
    by (simp add: group_with_def mirror_group_def group_walk_def)
next
  case (AsGroupedFee w)
  show ?thesis
  proof (cases "grouped w")
    case None
    then show ?thesis using AsGroupedFee by (simp add: group_with_def mirror_group_def)
  next
    case (Some gs)
    have "map (\<lambda>(k, fee). (k, simpleFeeSchema tbl (B (s, g, Some k)) cur)) gs =
          map (\<lambda>(k, fee). (k, simpleFeeSchema tbl (Some (maxAmount fee)) cur)) gs"
    proof (intro map_cong refl)
      fix x assume "x \<in> set gs"
      then have "(((s, g, Some (fst x)), snd x)) \<in> set (group_walk s g node)"
        using AsGroupedFee Some by (force simp: group_walk_def)
      then have "B (s, g, Some (fst x)) = Some (maxAmount (snd x))" by (rule assms)
      then show "(case x of (k, fee) \<Rightarrow> (k, simpleFeeSchema tbl (B (s, g, Some k)) cur)) =
                 (case x of (k, fee) \<Rightarrow> (k, simpleFeeSchema tbl (Some (maxAmount fee)) cur))"
        by (simp add: case_prod_unfold)
    qed
    then show ?thesis
      using AsGroupedFee Some by (simp add: group_with_def mirror_group_def)
  qed
qed

lemma sub_with_mirror:
  assumes "\<And>p fee. (p, fee) \<in> set (sub_walk s sub) \<Longrightarrow> B p = Some (maxAmount fee)"
  shows "sub_with tbl cur B s sub = mirror_sub tbl cur sub"
proof (cases sub)
  case None
  then show ?thesis by (simp add: sub_with_def mirror_sub_def)
next
  case (Some sc)
  show ?thesis
  proof (cases "fees sc")
    case None
    then show ?thesis using Some by (simp add: sub_with_def mirror_sub_def)
  next
    case fs: (Some fs)
    have "map (\<lambda>(g, node). (g, group_with tbl cur B s g node)) fs =
          map (\<lambda>(g, node). (g, mirror_group tbl cur node)) fs"
    proof (intro map_cong refl)
      fix x assume x: "x \<in> set fs"
      have "group_with tbl cur B s (fst x) (snd x) = mirror_group tbl cur (snd x)"
      proof (rule group_with_mirror)
        fix p fee assume "(p, fee) \<in> set (group_walk s (fst x) (snd x))"
        then have "(p, fee) \<in> set (sub_walk s sub)"
          using x Some fs by (force simp: sub_walk_def)
        then show "B p = Some (maxAmount fee)" by (rule assms)
      qed
      then show "(case x of (g, node) \<Rightarrow> (g, group_with tbl cur B s g node)) =
                 (case x of (g, node) \<Rightarrow> (g, mirror_group tbl cur node))"
        by (simp add: case_prod_unfold)
    qed
    then show ?thesis using Some fs by (simp add: sub_with_def mirror_sub_def)
  qed
qed

lemma schema_with_mirror_cong:
  assumes "\<And>p fee. (p, fee) \<in> set (tree_walk t) \<Longrightarrow> B p = Some (maxAmount fee)"
  shows "schema_with tbl cur B t = mirror_schema tbl cur t"
  unfolding schema_with_def mirror_schema_def
proof (intro map_cong refl)
  fix x assume x: "x \<in> set t"
  have "sub_with tbl cur B (fst x) (snd x) = mirror_sub tbl cur (snd x)"
  proof (rule sub_with_mirror)
    fix p fee assume "(p, fee) \<in> set (sub_walk (fst x) (snd x))"
    then have "(p, fee) \<in> set (tree_walk t)"
      using x by (force simp: tree_walk_def)
    then show "B p = Some (maxAmount fee)" by (rule assms)
  qed
  then show "(case x of (s, sub) \<Rightarrow> (s, sub_with tbl cur B s sub)) =
             (case x of (s, sub) \<Rightarrow> (s, mirror_sub tbl cur sub))"
    by (simp add: case_prod_unfold)
qed

lemma tree_walk_cases:
  assumes "(p, fee) \<in> set (tree_walk t)"
  obtains s sc fs g node ko where
    "p = (s, g, ko)" "(s, Some sc) \<in> set t" "fees sc = Some fs" "(g, node) \<in> set fs"
    "(ko = None \<and> node = AsFromFee fee) \<or>
     (\<exists>w gs k. ko = Some k \<and> node = AsGroupedFee w \<and> grouped w = Some gs \<and> (k, fee) \<in> set gs)"
proof -
  from assms obtain s sub where s: "(s, sub) \<in> set t" and ps: "(p, fee) \<in> set (sub_walk s sub)"
    by (auto simp: tree_walk_def)
  from ps obtain sc where sc: "sub = Some sc"
    by (cases sub) (auto simp: sub_walk_def)
  from ps sc obtain fs where fs: "fees sc = Some fs"
    by (cases "fees sc") (auto simp: sub_walk_def)
  from ps sc fs have "(p, fee) \<in> set (concat (map (\<lambda>(g, node). group_walk s g node) fs))"
    by (simp add: sub_walk_def)
  then obtain g node where g: "(g, node) \<in> set fs"
      and pg: "(p, fee) \<in> set (group_walk s g node)"
    by auto
  show ?thesis
  proof (cases node)
    case (AsFromFee f)
    then have "p = (s, g, None)" "f = fee" using pg by (auto simp: group_walk_def)
    then show ?thesis using that[of s g None sc fs node] s sc fs g AsFromFee by simp
  next
    case (AsGroupedFee w)
    then obtain gs where gs: "grouped w = Some gs"
      using pg by (cases "grouped w") (auto simp: group_walk_def)
    with AsGroupedFee pg obtain k where "(k, fee) \<in> set gs" "p = (s, g, Some k)"
      by (auto simp: group_walk_def)
    with gs have "grouped w = Some gs" "(k, fee) \<in> set gs" "p = (s, g, Some k)"
      by simp_all
    then show ?thesis using that[of s g "Some k" sc fs node] s sc fs g AsGroupedFee by simp
  qed
qed

lemma leaf_at_walk:
  assumes dk: "distinct_keys t" and w: "(p, fee) \<in> set (tree_walk t)"
  shows "leaf_at t p = Some fee"
proof -
  from w obtain s sc fs g node ko where
    p: "p = (s, g, ko)" and s: "(s, Some sc) \<in> set t" and fs: "fees sc = Some fs"
    and g: "(g, node) \<in> set fs"
    and c: "(ko = None \<and> node = AsFromFee fee) \<or>
     (\<exists>w gs k. ko = Some k \<and> node = AsGroupedFee w \<and> grouped w = Some gs \<and> (k, fee) \<in> set gs)"
    by (rule tree_walk_cases)
  have ms: "map_of t s = Some (Some sc)"
    using dk s by (simp add: distinct_keys_def keys_lookup)
  have sd: "sub_distinct (Some sc)"
    using dk s by (auto simp: distinct_keys_def list_all_iff)
  then have dfs: "distinct (map fst fs)" and gd: "group_distinct node"
    using fs g by (auto simp: sub_distinct_def list_all_iff)
  have mg: "map_of fs g = Some node"
    using dfs g by (rule keys_lookup)
  from c show ?thesis
  proof
    assume "ko = None \<and> node = AsFromFee fee"
    then show ?thesis using p ms fs mg by (simp add: leaf_at_def)
  next
    assume "\<exists>w gs k. ko = Some k \<and> node = AsGroupedFee w \<and> grouped w = Some gs \<and> (k, fee) \<in> set gs"
    then obtain w gs k where k: "ko = Some k" "node = AsGroupedFee w" "grouped w = Some gs"
      "(k, fee) \<in> set gs" by blast
    then have "distinct (map fst gs)" using gd by (simp add: group_distinct_def)
    then have "map_of gs k = Some fee" using k(4) by (rule keys_lookup)
    then show ?thesis using p ms fs mg k by (simp add: leaf_at_def)
  qed
qed

lemma safe_walk:
  assumes sk: "safe_keys t" and w: "(p, fee) \<in> set (tree_walk t)"
  obtains s g ko where "p = (s, g, ko)" "path_safe s" "path_safe g"
    "case ko of None \<Rightarrow> True | Some k \<Rightarrow> path_safe k"
proof -
  from w obtain s sc fs g node ko where
    p: "p = (s, g, ko)" and s: "(s, Some sc) \<in> set t" and fs: "fees sc = Some fs"
    and g: "(g, node) \<in> set fs"
    and c: "(ko = None \<and> node = AsFromFee fee) \<or>
     (\<exists>w gs k. ko = Some k \<and> node = AsGroupedFee w \<and> grouped w = Some gs \<and> (k, fee) \<in> set gs)"
    by (rule tree_walk_cases)
  have ss: "path_safe s" and sub: "sub_safe (Some sc)"
    using sk s by (auto simp: safe_keys_def list_all_iff)
  then have sg: "path_safe g" and gs: "group_safe node"
    using fs g by (auto simp: sub_safe_def list_all_iff)
  have "case ko of None \<Rightarrow> True | Some k \<Rightarrow> path_safe k"
    using c gs by (auto simp: group_safe_def list_all_iff)
  then show ?thesis using that p ss sg by blast
qed

lemma generate_mirror:
  assumes dk: "distinct_keys t" and sk: "safe_keys t"
  shows "generateFeesSchema tbl (Some t) cur =
           (if populated t then Inr (mirror_schema tbl cur t) else Inl TypeError)"
proof -
  have "schema_with tbl cur (\<lambda>p. lodash_get t (path_string p)) t = mirror_schema tbl cur t"
  proof (rule schema_with_mirror_cong)
    fix p fee assume w: "(p, fee) \<in> set (tree_walk t)"
    from sk w obtain s g ko where p: "p = (s, g, ko)" and safe: "path_safe s" "path_safe g"
      "case ko of None \<Rightarrow> True | Some k \<Rightarrow> path_safe k"
      by (rule safe_walk)
    have "lodash_get t (path_string (s, g, ko)) = map_option maxAmount (leaf_at t (s, g, ko))"
      using sk safe by (rule lodash_get_leaf_at)
    then show "lodash_get t (path_string p) = Some (maxAmount fee)"
      using leaf_at_walk[OF dk w] p by simp
  qed
  then show ?thesis
    using generate_reduce[OF dk, of tbl cur] by simp
qed

section \<open>What the ruleset accepts\<close>

lemma validate_at_Nil:
  "validate_at path (simpleFeeSchema tbl (Some (maxAmount li)) cur) lc = [] \<longleftrightarrow>
     leaf_ok tbl cur li lc"
  by (auto simp: validate_at_def validate_simpleFee_def simpleFeeSchema_def leaf_ok_def)

lemma validate_group_mirror:
  assumes cs: "map_of c s = Some (Some csc)" and cfs: "fees csc = Some cfs"
  shows "(case map_of cfs g of
            None \<Rightarrow> []
          | Some cnode \<Rightarrow> validate_feeGroup [s, ''fees'', g] (mirror_group tbl cur node) cnode) = []
         \<longleftrightarrow>
         list_all (\<lambda>(p, initial). case leaf_at c p of None \<Rightarrow> True
                                  | Some fee \<Rightarrow> leaf_ok tbl cur initial fee)
                  (group_walk s g node)"
proof (cases node)
  case (AsFromFee li)
  show ?thesis
  proof (cases "map_of cfs g")
    case None
    then show ?thesis
      using cs cfs AsFromFee by (simp add: group_walk_def leaf_at_def)
  next
    case (Some cnode)
    then show ?thesis
      using cs cfs AsFromFee
      by (cases cnode)
        (simp_all add: group_walk_def leaf_at_def mirror_group_def validate_feeGroup_def
          validate_at_Nil)
  qed
next
  case (AsGroupedFee w)
  show ?thesis
  proof (cases "grouped w")
    case None
    then show ?thesis
      using AsGroupedFee
      by (auto simp: group_walk_def mirror_group_def validate_feeGroup_def
          split: option.splits FeeGroup.splits)
  next
    case gs: (Some gs)
    show ?thesis
    proof (cases "map_of cfs g")
      case None
      then show ?thesis
        using cs cfs AsGroupedFee gs
        by (simp add: group_walk_def leaf_at_def list_all_iff case_prod_unfold)
    next
      case (Some cnode)
      show ?thesis
      proof (cases cnode)
        case (AsFromFee lc)
        then show ?thesis
          using cs cfs AsGroupedFee gs Some
          by (simp add: group_walk_def leaf_at_def list_all_iff case_prod_unfold
              mirror_group_def validate_feeGroup_def)
      next
        case cw: (AsGroupedFee cw)
        show ?thesis
        proof (cases "grouped cw")
          case None
          then show ?thesis
            using cs cfs AsGroupedFee gs Some cw
            by (simp add: group_walk_def leaf_at_def list_all_iff case_prod_unfold
                mirror_group_def validate_feeGroup_def)
        next
          case cgs: (Some cgs)
          then show ?thesis
            using cs cfs AsGroupedFee gs Some cw
            by (auto simp: group_walk_def leaf_at_def list_all_iff case_prod_unfold
                mirror_group_def validate_feeGroup_def validate_at_Nil
                split: option.splits)
        qed
      qed
    qed
  qed
qed

lemma leaf_at_no_sub:
  "map_of c s = None \<or> map_of c s = Some None \<or>
   (\<exists>csc. map_of c s = Some (Some csc) \<and> fees csc = None) \<Longrightarrow>
   leaf_at c (s, g, ko) = None"
  by (auto simp: leaf_at_def)

lemma walk_fst_group: "(p, li) \<in> set (group_walk s g node) \<Longrightarrow> \<exists>ko. p = (s, g, ko)"
proof (cases node)
  case (AsFromFee f)
  then show "(p, li) \<in> set (group_walk s g node) \<Longrightarrow> \<exists>ko. p = (s, g, ko)"
    by (simp add: group_walk_def)
next
  case (AsGroupedFee w)
  then show "(p, li) \<in> set (group_walk s g node) \<Longrightarrow> \<exists>ko. p = (s, g, ko)"
    by (cases "grouped w") (auto simp: group_walk_def)
qed

lemma walk_fst_sub: "(p, li) \<in> set (sub_walk s sub) \<Longrightarrow> \<exists>g ko. p = (s, g, ko)"
proof (cases sub)
  case None
  then show "(p, li) \<in> set (sub_walk s sub) \<Longrightarrow> \<exists>g ko. p = (s, g, ko)"
    by (simp add: sub_walk_def)
next
  case (Some sc)
  then show "(p, li) \<in> set (sub_walk s sub) \<Longrightarrow> \<exists>g ko. p = (s, g, ko)"
    by (cases "fees sc") (auto simp: sub_walk_def dest: walk_fst_group)
qed

lemma validate_sub_mirror:
  "(case map_of c s of
      None \<Rightarrow> []
    | Some csub \<Rightarrow> validate_subInvoice s (mirror_sub tbl cur sub) csub) = []
   \<longleftrightarrow>
   list_all (\<lambda>(p, initial). case leaf_at c p of None \<Rightarrow> True
                            | Some fee \<Rightarrow> leaf_ok tbl cur initial fee)
            (sub_walk s sub)"
proof -
  consider (absent) "map_of c s = None \<or> map_of c s = Some None \<or>
       (\<exists>csc. map_of c s = Some (Some csc) \<and> fees csc = None)"
    | (present) csc cfs where "map_of c s = Some (Some csc)" "fees csc = Some cfs"
    by (metis not_None_eq)
  then show ?thesis
  proof cases
    case absent
    then have l: "\<And>g ko. leaf_at c (s, g, ko) = None" by (rule leaf_at_no_sub)
    have "list_all (\<lambda>(p, initial). case leaf_at c p of None \<Rightarrow> True
                            | Some fee \<Rightarrow> leaf_ok tbl cur initial fee) (sub_walk s sub)"
      using l by (auto simp: list_all_iff dest!: walk_fst_sub)
    moreover have "(case map_of c s of None \<Rightarrow> []
        | Some csub \<Rightarrow> validate_subInvoice s (mirror_sub tbl cur sub) csub) = []"
      using absent by (auto simp: validate_subInvoice_def)
    ultimately show ?thesis by simp
  next
    case present
    show ?thesis
    proof (cases "\<exists>sc fs. sub = Some sc \<and> fees sc = Some fs")
      case False
      then have "sub_walk s sub = []" "mirror_sub tbl cur sub = []"
        by (auto simp: sub_walk_def mirror_sub_def split: option.splits)
      then show ?thesis using present by (simp add: validate_subInvoice_def)
    next
      case True
      then obtain sc fs where sc: "sub = Some sc" "fees sc = Some fs" by blast
      have "(case map_of c s of None \<Rightarrow> []
              | Some csub \<Rightarrow> validate_subInvoice s (mirror_sub tbl cur sub) csub) = [] \<longleftrightarrow>
            (\<forall>x\<in>set fs. (case map_of cfs (fst x) of None \<Rightarrow> []
                | Some cnode \<Rightarrow> validate_feeGroup [s, ''fees'', fst x]
                     (mirror_group tbl cur (snd x)) cnode) = [])"
        using present sc
        by (simp add: validate_subInvoice_def mirror_sub_def case_prod_unfold
            cong: option.case_cong)
      also have "\<dots> \<longleftrightarrow> (\<forall>x\<in>set fs.
            list_all (\<lambda>(p, initial). case leaf_at c p of None \<Rightarrow> True
                                  | Some fee \<Rightarrow> leaf_ok tbl cur initial fee)
                  (group_walk s (fst x) (snd x)))"
        using validate_group_mirror[OF present] by simp
      also have "\<dots> \<longleftrightarrow> list_all (\<lambda>(p, initial). case leaf_at c p of None \<Rightarrow> True
                            | Some fee \<Rightarrow> leaf_ok tbl cur initial fee) (sub_walk s sub)"
        using sc by (simp add: sub_walk_def list_all_iff case_prod_unfold)
      finally show ?thesis .
    qed
  qed
qed

lemma validate_mirror:
  "validate (mirror_schema tbl cur init) c = [] \<longleftrightarrow> accepts tbl cur init c"
proof -
  have "validate (mirror_schema tbl cur init) c = [] \<longleftrightarrow>
        (\<forall>x\<in>set init. (case map_of c (fst x) of None \<Rightarrow> []
            | Some csub \<Rightarrow> validate_subInvoice (fst x) (mirror_sub tbl cur (snd x)) csub) = [])"
    by (simp add: validate_def mirror_schema_def case_prod_unfold cong: option.case_cong)
  also have "\<dots> \<longleftrightarrow> (\<forall>x\<in>set init.
       list_all (\<lambda>(p, initial). case leaf_at c p of None \<Rightarrow> True
                            | Some fee \<Rightarrow> leaf_ok tbl cur initial fee)
            (sub_walk (fst x) (snd x)))"
    using validate_sub_mirror by simp
  also have "\<dots> \<longleftrightarrow> accepts tbl cur init c"
    by (simp add: accepts_def tree_walk_def list_all_iff case_prod_unfold)
  finally show ?thesis .
qed

section \<open>Trees that differ at their leaves\<close>

lemma map_of_map_values:
  "map_of (map (\<lambda>(k, v). (k, f v)) kvs) k = map_option f (map_of kvs k)"
  by (induction kvs) auto

lemma map_fst_map_values: "map fst (map (\<lambda>(k, v). (k, f v)) kvs) = map fst kvs"
  by (induction kvs) auto

lemma map_fst_comp_values: "map (fst \<circ> (\<lambda>(k, v). (k, f v))) kvs = map fst kvs"
  by (induction kvs) auto

lemma serialize_fee_map:
  assumes c: "\<And>f. checked (h f) = checked f"
    and v: "\<And>f. checked f \<Longrightarrow> fee_id (h f) = fee_id f \<and> fee_value (h f) = fee_value f"
  shows "serialize_fee tbl cur (Some (map (\<lambda>(k, fee). (k, h fee)) gs)) =
         serialize_fee tbl cur (Some gs)"
proof (intro ext)
  fix acc k
  show "serialize_fee tbl cur (Some (map (\<lambda>(k, fee). (k, h fee)) gs)) acc k =
        serialize_fee tbl cur (Some gs) acc k"
    by (cases "map_of gs k") (simp_all add: serialize_fee_def map_of_map_values c v)
qed

lemma serialize_group_map:
  assumes c: "\<And>f. checked (h f) = checked f"
    and v: "\<And>f. checked f \<Longrightarrow> fee_id (h f) = fee_id f \<and> fee_value (h f) = fee_value f"
  shows "serialize_group tbl cur (map_sub h sub) acc k = serialize_group tbl cur sub acc k"
proof (cases sub)
  case None
  then show ?thesis by (simp add: map_sub_def serialize_group_def)
next
  case (Some sc)
  show ?thesis
  proof (cases "fees sc")
    case None
    then show ?thesis using Some by (simp add: map_sub_def serialize_group_def)
  next
    case fs: (Some fs)
    show ?thesis
    proof (cases "map_of fs k")
      case None
      then show ?thesis
        using Some fs by (simp add: map_sub_def serialize_group_def map_of_map_values)
    next
      case node: (Some node)
      show ?thesis
      proof (cases node)
        case (AsFromFee fee)
        then show ?thesis
          using Some fs node
          by (simp add: map_sub_def serialize_group_def map_of_map_values map_group_def c v)
      next
        case (AsGroupedFee w)
        show ?thesis
        proof (cases "grouped w")
          case None
          then show ?thesis
            using Some fs node AsGroupedFee
            by (simp add: map_sub_def serialize_group_def map_of_map_values map_group_def
                Object_keys_def)
        next
          case gs: (Some gs)
          then show ?thesis
            using Some fs node AsGroupedFee
            by (simp add: map_sub_def serialize_group_def map_of_map_values map_group_def
                Object_keys_def map_fst_comp_values serialize_fee_map[OF c v])
        qed
      qed
    qed
  qed
qed

lemma serialize_sub_map:
  assumes c: "\<And>f. checked (h f) = checked f"
    and v: "\<And>f. checked f \<Longrightarrow> fee_id (h f) = fee_id f \<and> fee_value (h f) = fee_value f"
  shows "serialize_sub tbl cur (map_leaves h t) acc k = serialize_sub tbl cur t acc k"
proof -
  have lookup: "map_of (map_leaves h t) k = map_option (map_sub h) (map_of t k)"
    by (simp add: map_leaves_def map_of_map_values)
  have keys: "Object_keys (case map_sub h sub of None \<Rightarrow> None | Some sc \<Rightarrow> fees sc) =
              Object_keys (case sub of None \<Rightarrow> None | Some sc \<Rightarrow> fees sc)" for sub
    by (auto simp: map_sub_def Object_keys_def map_fst_comp_values split: option.splits)
  have red: "serialize_group tbl cur (map_sub h sub) = serialize_group tbl cur sub" for sub
    by (intro ext) (rule serialize_group_map[OF c v])
  show ?thesis
  proof (cases "map_of t k")
    case None
    then show ?thesis
      using lookup by (simp add: serialize_sub_def)
  next
    case (Some sub)
    then show ?thesis
      using lookup by (simp add: serialize_sub_def keys red cong: sum.case_cong)
  qed
qed

lemma serialize_map_leaves:
  assumes c: "\<And>f. checked (h f) = checked f"
    and v: "\<And>f. checked f \<Longrightarrow> fee_id (h f) = fee_id f \<and> fee_value (h f) = fee_value f"
  shows "serializeCreditNoteInput tbl iid (form\<lparr>form_fees := Some (map_leaves h t)\<rparr>) cur =
         serializeCreditNoteInput tbl iid (form\<lparr>form_fees := Some t\<rparr>) cur"
proof -
  have "reduce (serialize_sub tbl cur (map_leaves h t)) [] (map fst (map_leaves h t)) =
        reduce (serialize_sub tbl cur t) [] (map fst t)"
  proof -
    have "map fst (map_leaves h t) = map fst t"
      by (simp add: map_leaves_def map_fst_comp_values)
    moreover have "reduce (serialize_sub tbl cur (map_leaves h t)) [] (map fst t) =
                   reduce (serialize_sub tbl cur t) [] (map fst t)"
      by (rule reduce_cong) (rule serialize_sub_map[OF c v])
    ultimately show ?thesis by simp
  qed
  then show ?thesis
    by (simp add: serializeCreditNoteInput_def Let_def cong: sum.case_cong)
qed

lemma validate_group_map:
  assumes "\<And>s f. validate_simpleFee s (h f) = validate_simpleFee s f"
  shows "validate_feeGroup path schema (map_group h node) = validate_feeGroup path schema node"
proof -
  have at: "validate_at p s (h f) = validate_at p s f" for p s f
    by (simp add: validate_at_def assms)
  show ?thesis
  proof (cases node)
    case (AsFromFee fee)
    then show ?thesis
      by (cases schema) (simp_all add: validate_feeGroup_def map_group_def at)
  next
    case (AsGroupedFee w)
    show ?thesis
    proof (cases schema)
      case (SimpleFee x1)
      then show ?thesis using AsGroupedFee by (simp add: validate_feeGroup_def map_group_def)
    next
      case (GroupedShape fsch)
      show ?thesis
      proof (cases "grouped w")
        case None
        then show ?thesis
          using AsGroupedFee GroupedShape by (simp add: validate_feeGroup_def map_group_def)
      next
        case (Some gs)
        have "(case map_of (map (\<lambda>(k, fee). (k, h fee)) gs) k of None \<Rightarrow> []
               | Some fee \<Rightarrow> validate_at (path @ [''grouped'', k]) s fee) =
              (case map_of gs k of None \<Rightarrow> []
               | Some fee \<Rightarrow> validate_at (path @ [''grouped'', k]) s fee)" for k s
          by (cases "map_of gs k") (simp_all add: map_of_map_values at)
        then show ?thesis
          using AsGroupedFee GroupedShape Some
          by (simp add: validate_feeGroup_def map_group_def)
      qed
    qed
  qed
qed

lemma validate_sub_map:
  assumes "\<And>s f. validate_simpleFee s (h f) = validate_simpleFee s f"
  shows "validate_subInvoice s gsch (map_sub h sub) = validate_subInvoice s gsch sub"
proof (cases sub)
  case None
  then show ?thesis by (simp add: validate_subInvoice_def map_sub_def)
next
  case (Some sc)
  show ?thesis
  proof (cases "fees sc")
    case None
    then show ?thesis using Some by (simp add: validate_subInvoice_def map_sub_def)
  next
    case fs: (Some fs)
    have "(case map_of (map (\<lambda>(g, node). (g, map_group h node)) fs) g of None \<Rightarrow> []
           | Some node \<Rightarrow> validate_feeGroup [s, ''fees'', g] schema node) =
          (case map_of fs g of None \<Rightarrow> []
           | Some node \<Rightarrow> validate_feeGroup [s, ''fees'', g] schema node)" for g schema
      by (cases "map_of fs g") (simp_all add: map_of_map_values validate_group_map[OF assms])
    then show ?thesis
      using Some fs by (simp add: validate_subInvoice_def map_sub_def)
  qed
qed

lemma validate_map_leaves:
  assumes "\<And>s f. validate_simpleFee s (h f) = validate_simpleFee s f"
  shows "validate schema (map_leaves h c) = validate schema c"
proof -
  have "(case map_of (map_leaves h c) s of None \<Rightarrow> []
         | Some sub \<Rightarrow> validate_subInvoice s gsch sub) =
        (case map_of c s of None \<Rightarrow> []
         | Some sub \<Rightarrow> validate_subInvoice s gsch sub)" for s gsch
    by (cases "map_of c s")
      (simp_all add: map_leaves_def map_of_map_values validate_sub_map[OF assms])
  then show ?thesis
    by (simp add: validate_def)
qed

section \<open>Amounts and shapes\<close>

lemma precision_cases: "getCurrencyPrecision tbl cur = 2 \<or> getCurrencyPrecision tbl cur = 3"
  by (simp add: getCurrencyPrecision_def)

lemma serialize_deserialize:
  "serializeAmount tbl (deserializeAmount tbl (of_int n) cur) cur = n"
  by (simp add: serializeAmount_def deserializeAmount_def)

lemma deserialize_serialize_close:
  "\<bar>deserializeAmount tbl (of_int (serializeAmount tbl v cur)) cur - v\<bar>
     \<le> 1 / (2 * 10 ^ getCurrencyPrecision tbl cur)"
proof -
  let ?p = "(10::rat) ^ getCurrencyPrecision tbl cur"
  have pos: "0 < ?p" by simp
  have "\<bar>of_int (round (v * ?p)) - v * ?p\<bar> \<le> 1 / 2"
    by (rule of_int_round_abs_le)
  then have "\<bar>of_int (round (v * ?p)) - v * ?p\<bar> / ?p \<le> (1 / 2) / ?p"
    by (rule divide_right_mono) simp
  moreover have "\<bar>of_int (round (v * ?p)) - v * ?p\<bar> / ?p = \<bar>of_int (round (v * ?p)) / ?p - v\<bar>"
  proof -
    have "of_int (round (v * ?p)) / ?p - v = (of_int (round (v * ?p)) - v * ?p) / ?p"
      using pos by (simp add: diff_divide_distrib)
    then have "\<bar>of_int (round (v * ?p)) / ?p - v\<bar> = \<bar>of_int (round (v * ?p)) - v * ?p\<bar> / \<bar>?p\<bar>"
      by (simp only: abs_divide)
    then show ?thesis using pos by (simp only: abs_of_pos)
  qed
  ultimately show ?thesis
    by (simp add: serializeAmount_def deserializeAmount_def)
qed

lemma find_filter_hd:
  "find P xs = (case filter P xs of [] \<Rightarrow> None | x # _ \<Rightarrow> Some x)"
  by (induction xs) auto

lemma map_filter_walk:
  "(\<And>x. x \<in> set xs \<Longrightarrow> f (fst x) = Some (snd x)) \<Longrightarrow>
   List.map_filter f (map fst xs) = map snd xs"
  by (induction xs) (auto simp: map_filter_simps)

lemma group_with_shape:
  "(case group_with tbl cur B s g node of
      SimpleFee leaf_schema \<Rightarrow> None
    | GroupedShape field_schemas \<Rightarrow> Some (map fst field_schemas)) =
   (case node of
      AsFromFee fee \<Rightarrow> None
    | AsGroupedFee w \<Rightarrow> Some (case grouped w of None \<Rightarrow> [] | Some gs \<Rightarrow> map fst gs))"
  by (auto simp: group_with_def comp_def case_prod_unfold split: FeeGroup.splits option.splits)

lemma schema_with_shape: "schema_shape (schema_with tbl cur B t) = tree_shape t"
  unfolding schema_shape_def schema_with_def tree_shape_def sub_with_def
  by (auto simp: comp_def case_prod_unfold group_with_shape split: option.splits)

lemma group_with_paths:
  "(case group_with tbl cur B s g node of
      SimpleFee leaf_schema \<Rightarrow> [(s, g, None)]
    | GroupedShape field_schemas \<Rightarrow>
        map (\<lambda>(feeKey, leaf_schema). (s, g, Some feeKey)) field_schemas) =
   map fst (group_walk s g node)"
  by (auto simp: group_with_def group_walk_def comp_def case_prod_unfold
      split: FeeGroup.splits option.splits)

lemma sub_with_paths:
  "concat (map (\<lambda>(g, gschema).
      (case gschema of
         SimpleFee leaf_schema \<Rightarrow> [(s, g, None)]
       | GroupedShape field_schemas \<Rightarrow>
           map (\<lambda>(feeKey, leaf_schema). (s, g, Some feeKey)) field_schemas))
     (sub_with tbl cur B s sub)) = map fst (sub_walk s sub)"
  by (cases sub; cases "fees (the sub)")
    (simp_all add: sub_with_def sub_walk_def comp_def case_prod_unfold map_concat
      group_with_paths[unfolded case_prod_unfold] cong: FeeGroupSchema.case_cong)

lemma schema_with_paths: "schema_paths (schema_with tbl cur B t) = map fst (tree_walk t)"
  by (simp add: schema_paths_def schema_with_def tree_walk_def comp_def case_prod_unfold
      map_concat sub_with_paths[unfolded case_prod_unfold] cong: FeeGroupSchema.case_cong)

section \<open>The output of the serializer\<close>

lemma payBack_cents:
  "serializeAmount tbl (payBack_amount pb ty) cur =
   entry_cents tbl cur (filter (\<lambda>p. payBack_type p = Some ty) pb)"
proof (cases "filter (\<lambda>p. payBack_type p = Some ty) pb")
  case Nil
  then show ?thesis
    by (simp add: payBack_amount_def entry_cents_def find_filter_hd serializeAmount_def)
next
  case (Cons p rest)
  then show ?thesis
    by (cases "payBack_value p")
      (simp_all add: payBack_amount_def entry_cents_def find_filter_hd serializeAmount_def)
qed

lemma serialize_result:
  "serializeCreditNoteInput tbl iid form cur =
     (case reduce (serialize_sub tbl cur (case form_fees form of None \<Rightarrow> [] | Some f \<Rightarrow> f)) []
             (map fst (case form_fees form of None \<Rightarrow> [] | Some f \<Rightarrow> f)) of
        Inl e \<Rightarrow> Inl e
      | Inr tree_items \<Rightarrow>
          Inr \<lparr>invoiceId = iid,
               reason = form_reason form,
               description = form_description form,
               creditAmountCents =
                 (case form_payBack form of
                    None \<Rightarrow> 0
                  | Some pb \<Rightarrow>
                      entry_cents tbl cur (filter (\<lambda>p. payBack_type p = Some credit) pb)),
               refundAmountCents =
                 (case form_payBack form of
                    None \<Rightarrow> 0
                  | Some pb \<Rightarrow>
                      entry_cents tbl cur (filter (\<lambda>p. payBack_type p = Some refund) pb)),
               items = addOn_items tbl cur form @ tree_items\<rparr>)"
proof -
  have a: "(case form_addOnFee form of
              None \<Rightarrow> []
            | Some addOn \<Rightarrow>
                if fee_value addOn \<noteq> 0
                then [\<lparr>feeId = fee_id addOn,
                       amountCents = serializeAmount tbl (fee_value addOn) cur\<rparr>]
                else []) = addOn_items tbl cur form"
    by (simp add: addOn_items_def item_of_def split: option.splits)
  have r: "(case form_payBack form of
              None \<Rightarrow> 0
            | Some payBack \<Rightarrow>
                (if serializeAmount tbl (payBack_amount payBack refund) cur = 0 then 0
                 else serializeAmount tbl (payBack_amount payBack refund) cur)) =
           (case form_payBack form of
              None \<Rightarrow> 0
            | Some pb \<Rightarrow> entry_cents tbl cur (filter (\<lambda>p. payBack_type p = Some refund) pb))"
    by (simp add: payBack_cents split: option.splits)
  have c: "(case form_payBack form of
              None \<Rightarrow> 0
            | Some payBack \<Rightarrow> serializeAmount tbl (payBack_amount payBack credit) cur) =
           (case form_payBack form of
              None \<Rightarrow> 0
            | Some pb \<Rightarrow> entry_cents tbl cur (filter (\<lambda>p. payBack_type p = Some credit) pb))"
    by (simp add: payBack_cents split: option.splits)
  show ?thesis
    unfolding serializeCreditNoteInput_def Let_def a r c ..
qed

lemma serialize_on_tree:
  assumes "form_fees form = Some t" "distinct_keys t"
  shows "serializeCreditNoteInput tbl iid form cur =
     (if populated t then
        Inr \<lparr>invoiceId = iid,
             reason = form_reason form,
             description = form_description form,
             creditAmountCents =
               (case form_payBack form of
                  None \<Rightarrow> 0
                | Some pb \<Rightarrow>
                    entry_cents tbl cur (filter (\<lambda>p. payBack_type p = Some credit) pb)),
             refundAmountCents =
               (case form_payBack form of
                  None \<Rightarrow> 0
                | Some pb \<Rightarrow>
                    entry_cents tbl cur (filter (\<lambda>p. payBack_type p = Some refund) pb)),
             items = addOn_items tbl cur form @
                     map (item_of tbl cur) (filter checked (tree_leaves t))\<rparr>
      else Inl TypeError)"
  using serialize_tree_reduce[OF assms(2), of tbl cur "[]"] assms(1)
  by (simp add: serialize_result)

lemma leaves_at_schema_paths:
  assumes "distinct_keys t"
  shows "List.map_filter (leaf_at t) (map fst (tree_walk t)) = tree_leaves t"
  unfolding tree_leaves_def
proof (rule map_filter_walk)
  fix x assume "x \<in> set (tree_walk t)"
  then have "(fst x, snd x) \<in> set (tree_walk t)" by simp
  then show "leaf_at t (fst x) = Some (snd x)"
    using assms by (rule leaf_at_walk[rotated])
qed

section \<open>The example inputs, evaluated\<close>

lemma example_tree_distinct: "distinct_keys example_tree"
  by (simp add: example_tree_def distinct_keys_def sub_distinct_def group_distinct_def)

lemma example_tree_populated: "populated example_tree"
  by (simp add: example_tree_def populated_def sub_populated_def group_populated_def)

lemma example_tree_safe: "safe_keys example_tree"
  by (simp add: example_tree_def safe_keys_def sub_safe_def group_safe_def path_safe_def)

lemma example_tree_leaves:
  "tree_leaves example_tree =
     [\<lparr>fee_id = ''f1'', checked = True, fee_value = 10, maxAmount = 5000\<rparr>,
      \<lparr>fee_id = ''f2'', checked = True, fee_value = 2, maxAmount = 1000\<rparr>,
      \<lparr>fee_id = ''f3'', checked = False, fee_value = 7, maxAmount = 1000\<rparr>]"
  by (simp add: example_tree_def tree_leaves_def tree_walk_def sub_walk_def group_walk_def)

lemmas eval_serializer =
  serializeCreditNoteInput_def serialize_sub_def serialize_group_def serialize_fee_def
  Object_keys_def serializeAmount_def getCurrencyPrecision_def payBack_amount_def

lemmas eval_generator =
  generateFeesSchema_def schema_sub_def schema_group_def schema_fee_def Object_keys_def
  lodash_get_def simpleFeeSchema_def deserializeAmount_def getCurrencyPrecision_def

lemmas eval_validate =
  validate_def validate_subInvoice_def validate_feeGroup_def validate_at_def
  validate_simpleFee_def

lemma example_addOn_serialized:
  "serializeCreditNoteInput [] ''inv-1'' example_addOn_form ''USD'' =
     Inr \<lparr>invoiceId = ''inv-1'', reason = Some ''other'', description = Some ''partial'',
          creditAmountCents = 1200, refundAmountCents = 250,
          items = [\<lparr>feeId = ''a1'', amountCents = 500\<rparr>,
                   \<lparr>feeId = ''f1'', amountCents = 1000\<rparr>,
                   \<lparr>feeId = ''f2'', amountCents = 200\<rparr>]\<rparr>"
  by (simp add: example_addOn_form_def example_tree_def eval_serializer)

lemma example_three_decimals_serialized:
  "serializeCreditNoteInput [''BHD''] ''inv-1'' example_form ''BHD'' =
     Inr \<lparr>invoiceId = ''inv-1'', reason = Some ''other'', description = None,
          creditAmountCents = 12000, refundAmountCents = 0,
          items = [\<lparr>feeId = ''f1'', amountCents = 10000\<rparr>,
                   \<lparr>feeId = ''f2'', amountCents = 2000\<rparr>]\<rparr>"
  by (simp add: example_form_def example_tree_def eval_serializer)

lemma example_schema_generated:
  "generateFeesSchema [] (Some example_tree) ''USD'' = Inr example_schema"
  by (simp add: example_tree_def example_schema_def eval_generator)

lemma tiny_schema_generated:
  "generateFeesSchema [] (Some tiny_tree) ''USD'' = Inr tiny_schema"
  by (simp add: tiny_tree_def tiny_schema_def eval_generator)

lemma zero_tree_distinct: "distinct_keys zero_tree"
  by (simp add: zero_tree_def distinct_keys_def sub_distinct_def group_distinct_def)

lemma zero_tree_populated: "populated zero_tree"
  by (simp add: zero_tree_def populated_def sub_populated_def group_populated_def)

lemma zero_tree_leaves:
  "tree_leaves zero_tree =
     [\<lparr>fee_id = ''f1'', checked = True, fee_value = 0, maxAmount = 5000\<rparr>]"
  by (simp add: zero_tree_def tree_leaves_def tree_walk_def sub_walk_def group_walk_def)

section \<open>Properties of the serializer and of the validator\<close>

text \<open>
  C1. For a populated fee tree the serializer returns, and after the item of the add-on
  fee (if any) its items are exactly the line items of the leaves whose \<^verbatim>\<open>checked\<close> is
  true, one per leaf, carrying the leaf's \<^verbatim>\<open>id\<close>, in the order of the walk (sub-invoice
  group, then fee-group, then leaf of a grouped fee-group); a leaf whose \<^verbatim>\<open>checked\<close>
  is false has no item.
\<close>

theorem items_are_the_checked_leaves:
  assumes "form_fees form = Some t" and "distinct_keys t" and "populated t"
  shows "\<exists>out. serializeCreditNoteInput tbl iid form cur = Inr out \<and>
           items out = addOn_items tbl cur form @
                       map (item_of tbl cur) (filter checked (tree_leaves t))"
  using serialize_on_tree[OF assms(1,2), of tbl iid cur] assms(3) by simp

theorem items_are_the_checked_leaves_witness:
  "form_fees example_form = Some example_tree \<and> distinct_keys example_tree \<and>
   populated example_tree \<and>
   (\<exists>out. serializeCreditNoteInput [] ''inv-1'' example_form ''USD'' = Inr out \<and>
      items out = [\<lparr>feeId = ''f1'', amountCents = 1000\<rparr>, \<lparr>feeId = ''f2'', amountCents = 200\<rparr>])"
proof -
  have f: "form_fees example_form = Some example_tree"
    by (simp add: example_form_def)
  have e: "addOn_items [] ''USD'' example_form @
             map (item_of [] ''USD'') (filter checked (tree_leaves example_tree)) =
           [\<lparr>feeId = ''f1'', amountCents = 1000\<rparr>, \<lparr>feeId = ''f2'', amountCents = 200\<rparr>]"
    by (simp add: example_tree_leaves addOn_items_def example_form_def item_of_def
        serializeAmount_def getCurrencyPrecision_def)
  show ?thesis
    using items_are_the_checked_leaves[OF f example_tree_distinct example_tree_populated,
        of "[]" "''inv-1''" "''USD''"]
    by (simp add: f example_tree_distinct example_tree_populated e)
qed

text \<open>
  C2, as stated, fails: a checked leaf with the value \<^verbatim>\<open>1e-17\<close> is strictly greater than 0
  and below its bound, and the generated ruleset rejects it with \<^verbatim>\<open>minZero\<close>. It also
  fails for a key with a dot: the path lookup of the bound finds nothing, and the ruleset
  rejects the checked value 10 below the leaf's bound of 50 with \<^verbatim>\<open>overMax\<close>.
\<close>

theorem tiny_positive_value_is_rejected:
  "generateFeesSchema [] (Some tiny_tree) ''USD'' = Inr tiny_schema \<and>
   accepts_positive [] ''USD'' tiny_tree tiny_tree \<and>
   validate tiny_schema tiny_tree = [([''invA'', ''fees'', ''g1'', ''value''], minZero)] \<and>
   generateFeesSchema [] (Some dotted_tree) ''USD'' = Inr dotted_schema \<and>
   accepts_positive [] ''USD'' dotted_tree dotted_tree \<and>
   validate dotted_schema dotted_tree = [([''sub.1'', ''fees'', ''g1'', ''value''], overMax)]"
proof -
  have "generateFeesSchema [] (Some dotted_tree) ''USD'' = Inr dotted_schema"
    by (simp add: dotted_tree_def dotted_schema_def eval_generator)
  moreover have "accepts_positive [] ''USD'' dotted_tree dotted_tree"
    by (simp add: accepts_positive_def dotted_tree_def tree_walk_def sub_walk_def
        group_walk_def leaf_at_def leaf_ok_positive_def deserializeAmount_def
        getCurrencyPrecision_def)
  moreover have "validate dotted_schema dotted_tree =
                   [([''sub.1'', ''fees'', ''g1'', ''value''], overMax)]"
    by (simp add: dotted_schema_def dotted_tree_def eval_validate)
  moreover
  have "accepts_positive [] ''USD'' tiny_tree tiny_tree"
    by (simp add: accepts_positive_def tiny_tree_def tree_walk_def sub_walk_def group_walk_def
        leaf_at_def leaf_ok_positive_def deserializeAmount_def getCurrencyPrecision_def)
  moreover have "validate tiny_schema tiny_tree =
                   [([''invA'', ''fees'', ''g1'', ''value''], minZero)]"
    by (simp add: tiny_schema_def tiny_tree_def eval_validate)
  ultimately show ?thesis
    using tiny_schema_generated by simp
qed

text \<open>
  C2, amended. For an initial tree with every nested map present and keys without dots
  and brackets, the generation of the ruleset succeeds, and a candidate tree is valid for
  the generated ruleset if and only if every candidate leaf at the position of an initial
  leaf that is checked has a value of at least \<^verbatim>\<open>0.0000000000000001\<close> and at most the
  \<^verbatim>\<open>maxAmount\<close> of the initial leaf converted to major units; a leaf that is not
  checked passes with any value. So at a leaf, checked with value 0 is rejected, checked
  with the value of the bound is accepted (when the bound is not below the minimum), and
  unchecked with value 0 is accepted.
\<close>

theorem ruleset_accepts_values_within_bounds:
  assumes "distinct_keys init" and "safe_keys init" and "populated init"
  shows "\<exists>schema. generateFeesSchema tbl (Some init) cur = Inr schema \<and>
           (\<forall>cand. validate schema cand = [] \<longleftrightarrow> accepts tbl cur init cand) \<and>
           (\<forall>m fee. validate_simpleFee (simpleFeeSchema tbl (Some m) cur) fee = [] \<longleftrightarrow>
                      (checked fee \<longrightarrow>
                         1 / 10 ^ 16 \<le> fee_value fee \<and>
                         fee_value fee \<le> deserializeAmount tbl m cur))"
proof -
  have g: "generateFeesSchema tbl (Some init) cur = Inr (mirror_schema tbl cur init)"
    using generate_mirror[OF assms(1,2), of tbl cur] assms(3) by simp
  have l: "validate_simpleFee (simpleFeeSchema tbl (Some m) cur) fee = [] \<longleftrightarrow>
             (checked fee \<longrightarrow>
                1 / 10 ^ 16 \<le> fee_value fee \<and> fee_value fee \<le> deserializeAmount tbl m cur)"
    for m fee
    by (auto simp: validate_simpleFee_def simpleFeeSchema_def)
  show ?thesis
    using g validate_mirror[of tbl cur init] l by blast
qed

theorem ruleset_accepts_values_within_bounds_witness:
  "distinct_keys example_tree \<and> safe_keys example_tree \<and> populated example_tree \<and>
   generateFeesSchema [] (Some example_tree) ''USD'' = Inr example_schema \<and>
   validate example_schema example_tree = [] \<and> accepts [] ''USD'' example_tree example_tree \<and>
   validate example_schema example_tree_other_max = [] \<and>
   validate_simpleFee (simpleFeeSchema [] (Some 5000) ''USD'')
     \<lparr>fee_id = ''f1'', checked = True, fee_value = 0, maxAmount = 5000\<rparr> \<noteq> [] \<and>
   validate_simpleFee (simpleFeeSchema [] (Some 5000) ''USD'')
     \<lparr>fee_id = ''f1'', checked = True, fee_value = 50, maxAmount = 5000\<rparr> = [] \<and>
   validate_simpleFee (simpleFeeSchema [] (Some 5000) ''USD'')
     \<lparr>fee_id = ''f1'', checked = False, fee_value = 0, maxAmount = 5000\<rparr> = []"
proof -
  from ruleset_accepts_values_within_bounds[OF example_tree_distinct example_tree_safe
      example_tree_populated, of "[]" "''USD''"]
  obtain schema where g: "generateFeesSchema [] (Some example_tree) ''USD'' = Inr schema"
    and v: "\<forall>cand. validate schema cand = [] \<longleftrightarrow> accepts [] ''USD'' example_tree cand"
    and l: "\<forall>m fee. validate_simpleFee (simpleFeeSchema [] (Some m) ''USD'') fee = [] \<longleftrightarrow>
                      (checked fee \<longrightarrow>
                         1 / 10 ^ 16 \<le> fee_value fee \<and>
                         fee_value fee \<le> deserializeAmount [] m ''USD'')"
    by blast
  have s: "schema = example_schema"
    using g example_schema_generated by simp
  have a: "accepts [] ''USD'' example_tree example_tree"
    by (simp add: accepts_def example_tree_def tree_walk_def sub_walk_def group_walk_def
        leaf_at_def leaf_ok_def deserializeAmount_def getCurrencyPrecision_def)
  have b: "accepts [] ''USD'' example_tree example_tree_other_max"
    by (simp add: accepts_def example_tree_def example_tree_other_max_def tree_walk_def
        sub_walk_def group_walk_def leaf_at_def leaf_ok_def deserializeAmount_def
        getCurrencyPrecision_def)
  have d: "deserializeAmount [] 5000 ''USD'' = 50"
    by (simp add: deserializeAmount_def getCurrencyPrecision_def)
  have "validate example_schema example_tree = []"
    and "validate example_schema example_tree_other_max = []"
    using v s a b by simp_all
  moreover have "validate_simpleFee (simpleFeeSchema [] (Some 5000) ''USD'')
     \<lparr>fee_id = ''f1'', checked = True, fee_value = 0, maxAmount = 5000\<rparr> \<noteq> []"
    "validate_simpleFee (simpleFeeSchema [] (Some 5000) ''USD'')
     \<lparr>fee_id = ''f1'', checked = True, fee_value = 50, maxAmount = 5000\<rparr> = []"
    "validate_simpleFee (simpleFeeSchema [] (Some 5000) ''USD'')
     \<lparr>fee_id = ''f1'', checked = False, fee_value = 0, maxAmount = 5000\<rparr> = []"
    using l d by simp_all
  ultimately show ?thesis
    using example_tree_distinct example_tree_safe example_tree_populated
      example_schema_generated a by simp
qed

text \<open>
  C3. Both walks treat a fee tree that is \<^verbatim>\<open>undefined\<close> as a whole as empty
  (\<^verbatim>\<open>fees = []\<close>, \<^verbatim>\<open>formikInitialFees || {}\<close>): no items and no rules. At the nested
  levels they read the map with optional chaining (\<^verbatim>\<open>subChild?.fees\<close>,
  \<^verbatim>\<open>child?.grouped\<close>) and hand it to \<^verbatim>\<open>Object.keys\<close> without a fallback. So for a
  sub-invoice group whose \<^verbatim>\<open>fees\<close> map is \<^verbatim>\<open>undefined\<close>, and for a grouped fee-group
  whose \<^verbatim>\<open>grouped\<close> map is \<^verbatim>\<open>undefined\<close>, the serializer and the generation of the
  ruleset each raise a \<^verbatim>\<open>TypeError\<close>, where the missing branch should be treated as
  empty.
\<close>

theorem undefined_nested_map_raises:
  "serializeCreditNoteInput [] ''inv-1'' (form_of_tree tree_without_fees) ''USD'' = Inl TypeError \<and>
   generateFeesSchema [] (Some tree_without_fees) ''USD'' = Inl TypeError \<and>
   serializeCreditNoteInput [] ''inv-1'' (form_of_tree tree_without_grouped) ''USD'' = Inl TypeError \<and>
   generateFeesSchema [] (Some tree_without_grouped) ''USD'' = Inl TypeError \<and>
   serializeCreditNoteInput [] ''inv-1'' (example_form\<lparr>form_fees := None\<rparr>) ''USD'' =
     Inr \<lparr>invoiceId = ''inv-1'', reason = Some ''other'', description = None,
          creditAmountCents = 1200, refundAmountCents = 0, items = []\<rparr> \<and>
   generateFeesSchema [] None ''USD'' = Inr []"
proof -
  have "serializeCreditNoteInput [] ''inv-1'' (form_of_tree tree_without_fees) ''USD''
          = Inl TypeError"
    and "serializeCreditNoteInput [] ''inv-1'' (form_of_tree tree_without_grouped) ''USD''
          = Inl TypeError"
    by (simp_all add: form_of_tree_def tree_without_fees_def tree_without_grouped_def
        eval_serializer)
  moreover have "generateFeesSchema [] (Some tree_without_fees) ''USD'' = Inl TypeError"
    and "generateFeesSchema [] (Some tree_without_grouped) ''USD'' = Inl TypeError"
    and "generateFeesSchema [] None ''USD'' = Inr []"
    by (simp_all add: tree_without_fees_def tree_without_grouped_def eval_generator)
  moreover have "serializeCreditNoteInput [] ''inv-1'' (example_form\<lparr>form_fees := None\<rparr>) ''USD'' =
     Inr \<lparr>invoiceId = ''inv-1'', reason = Some ''other'', description = None,
          creditAmountCents = 1200, refundAmountCents = 0, items = []\<rparr>"
    by (simp add: example_form_def eval_serializer)
  ultimately show ?thesis by simp
qed

text \<open>
  C4. Every item the serializer emits comes from the add-on fee or from a leaf of the tree
  and carries \<^verbatim>\<open>amountCents = round(value * 10^precision(currency))\<close>, the precision
  being 2 or 3. The conversion is reversed by the same precision: converting a number of
  minor units to major units and back gives the same number, converting a major-unit
  amount to minor units and back gives an amount within half a minor unit of it, and
  exactly the amount when it has no more decimal digits than the precision.
\<close>

theorem amountCents_is_rounded_minor_units:
  assumes "form_fees form = Some t" and "distinct_keys t"
    and "serializeCreditNoteInput tbl iid form cur = Inr out"
  shows "(\<forall>it\<in>set (items out).
            \<exists>fee\<in>set_option (form_addOnFee form) \<union> set (tree_leaves t).
              it = \<lparr>feeId = fee_id fee,
                    amountCents = round (fee_value fee * 10 ^ getCurrencyPrecision tbl cur)\<rparr>) \<and>
         (getCurrencyPrecision tbl cur = 2 \<or> getCurrencyPrecision tbl cur = 3) \<and>
         (\<forall>n. serializeAmount tbl (deserializeAmount tbl (of_int n) cur) cur = n) \<and>
         (\<forall>v. \<bar>deserializeAmount tbl (of_int (serializeAmount tbl v cur)) cur - v\<bar>
                \<le> 1 / (2 * 10 ^ getCurrencyPrecision tbl cur)) \<and>
         (\<forall>v k. v * 10 ^ getCurrencyPrecision tbl cur = of_int k \<longrightarrow>
                deserializeAmount tbl (of_int (serializeAmount tbl v cur)) cur = v)"
proof -
  have pop: "populated t"
    using serialize_on_tree[OF assms(1,2), of tbl iid cur] assms(3)
    by (cases "populated t") simp_all
  then have it: "items out = addOn_items tbl cur form @
                   map (item_of tbl cur) (filter checked (tree_leaves t))"
    using serialize_on_tree[OF assms(1,2), of tbl iid cur] assms(3) by auto
  have a: "\<forall>it\<in>set (items out).
            \<exists>fee\<in>set_option (form_addOnFee form) \<union> set (tree_leaves t).
              it = \<lparr>feeId = fee_id fee,
                    amountCents = round (fee_value fee * 10 ^ getCurrencyPrecision tbl cur)\<rparr>"
    unfolding it
    by (auto simp: addOn_items_def item_of_def serializeAmount_def
        split: option.splits if_splits)
  have e: "deserializeAmount tbl (of_int (serializeAmount tbl v cur)) cur = v"
    if "v * 10 ^ getCurrencyPrecision tbl cur = of_int k" for v k
  proof -
    have "v = of_int k / 10 ^ getCurrencyPrecision tbl cur"
      using that by (simp add: field_simps)
    then show ?thesis
      using that by (simp add: serializeAmount_def deserializeAmount_def)
  qed
  show ?thesis
    using a precision_cases[of tbl cur] serialize_deserialize[of tbl _ cur]
      deserialize_serialize_close[of tbl _ cur] e
    by blast
qed

theorem amountCents_is_rounded_minor_units_witness:
  "form_fees example_addOn_form = Some example_tree \<and> distinct_keys example_tree \<and>
   (\<exists>fee. fee \<in> set (tree_leaves example_tree) \<and>
      \<lparr>feeId = ''f1'', amountCents = 1000\<rparr> =
      \<lparr>feeId = fee_id fee, amountCents = round (fee_value fee * 10 ^ 2)\<rparr>) \<and>
   serializeAmount [] (deserializeAmount [] (of_int 1000) ''USD'') ''USD'' = 1000 \<and>
   deserializeAmount [] (of_int (serializeAmount [] 10 ''USD'')) ''USD'' = 10 \<and>
   form_fees example_form = Some example_tree \<and>
   (\<exists>fee. fee \<in> set (tree_leaves example_tree) \<and>
      \<lparr>feeId = ''f2'', amountCents = 2000\<rparr> =
      \<lparr>feeId = fee_id fee, amountCents = round (fee_value fee * 10 ^ 3)\<rparr>)"
proof -
  have f3: "form_fees example_form = Some example_tree"
    by (simp add: example_form_def)
  have p3: "getCurrencyPrecision [''BHD''] ''BHD'' = 3"
    by (simp add: getCurrencyPrecision_def)
  note T3 = amountCents_is_rounded_minor_units[OF f3 example_tree_distinct
      example_three_decimals_serialized]
  have A3: "\<exists>fee. fee \<in> set (tree_leaves example_tree) \<and>
      \<lparr>feeId = ''f2'', amountCents = 2000\<rparr> =
      \<lparr>feeId = fee_id fee, amountCents = round (fee_value fee * 10 ^ 3)\<rparr>"
    using T3 p3 by (auto simp: example_form_def)
  have f: "form_fees example_addOn_form = Some example_tree"
    by (simp add: example_addOn_form_def)
  have k: "(10::rat) * 10 ^ getCurrencyPrecision [] ''USD'' = of_int 1000"
    by (simp add: getCurrencyPrecision_def)
  have p: "getCurrencyPrecision [] ''USD'' = 2"
    by (simp add: getCurrencyPrecision_def)
  note T = amountCents_is_rounded_minor_units[OF f example_tree_distinct
      example_addOn_serialized]
  have A: "\<forall>it\<in>{\<lparr>feeId = ''a1'', amountCents = 500\<rparr>, \<lparr>feeId = ''f1'', amountCents = 1000\<rparr>,
            \<lparr>feeId = ''f2'', amountCents = 200\<rparr>}.
      \<exists>fee\<in>set_option (form_addOnFee example_addOn_form) \<union> set (tree_leaves example_tree).
        it = \<lparr>feeId = fee_id fee, amountCents = round (fee_value fee * 10 ^ 2)\<rparr>"
    using T p by simp
  have B: "serializeAmount [] (deserializeAmount [] (of_int 1000) ''USD'') ''USD'' = 1000"
    using T by blast
  have C: "deserializeAmount [] (of_int (serializeAmount [] 10 ''USD'')) ''USD'' = 10"
    using T k by blast
  have A': "\<exists>fee. fee \<in> set (tree_leaves example_tree) \<and>
      \<lparr>feeId = ''f1'', amountCents = 1000\<rparr> =
      \<lparr>feeId = fee_id fee, amountCents = round (fee_value fee * 10 ^ 2)\<rparr>"
    using A by (auto simp: example_addOn_form_def)
  show ?thesis
    using A' B C f example_tree_distinct f3 A3 by blast
qed

text \<open>
  C5. The serializer and the generation of the ruleset tell a bare leaf from a grouped
  wrapper by the same test, so that on every fee tree they fail together or succeed
  together, and when they succeed the ruleset classifies every fee-group as the tree walk
  does (same keys, leaf rule for a bare leaf, grouped shape with the keys of the inner
  leaves for a wrapper), its leaf rules sit at the positions of the leaves in walk order,
  and the items of the serializer are those of the checked leaves found at the positions of
  the leaf rules.
\<close>

theorem ruleset_congruent_with_serializer_walk:
  assumes "form_fees form = Some t" and "distinct_keys t"
  shows "(isl (serializeCreditNoteInput tbl iid form cur) \<longleftrightarrow>
          isl (generateFeesSchema tbl (Some t) cur)) \<and>
         (\<forall>schema out.
            generateFeesSchema tbl (Some t) cur = Inr schema \<and>
            serializeCreditNoteInput tbl iid form cur = Inr out \<longrightarrow>
              schema_shape schema = tree_shape t \<and>
              schema_paths schema = map fst (tree_walk t) \<and>
              items out =
                addOn_items tbl cur form @
                map (item_of tbl cur)
                  (filter checked (List.map_filter (leaf_at t) (schema_paths schema))))"
proof (cases "populated t")
  case False
  then show ?thesis
    using serialize_on_tree[OF assms, of tbl iid cur] generate_reduce[OF assms(2), of tbl cur]
    by simp
next
  case True
  let ?S = "schema_with tbl cur (\<lambda>p. lodash_get t (path_string p)) t"
  have g: "generateFeesSchema tbl (Some t) cur = Inr ?S"
    using generate_reduce[OF assms(2), of tbl cur] True by simp
  have s: "\<exists>out. serializeCreditNoteInput tbl iid form cur = Inr out \<and>
             items out = addOn_items tbl cur form @
                         map (item_of tbl cur) (filter checked (tree_leaves t))"
    using serialize_on_tree[OF assms, of tbl iid cur] True by simp
  have p: "schema_paths ?S = map fst (tree_walk t)"
    by (rule schema_with_paths)
  have l: "List.map_filter (leaf_at t) (schema_paths ?S) = tree_leaves t"
    using leaves_at_schema_paths[OF assms(2)] p by simp
  show ?thesis
    using g s p l schema_with_shape[of tbl cur "\<lambda>p. lodash_get t (path_string p)" t]
    by auto
qed

theorem ruleset_congruent_with_serializer_walk_witness:
  "form_fees example_form = Some example_tree \<and> distinct_keys example_tree \<and>
   schema_shape example_schema = tree_shape example_tree \<and>
   schema_paths example_schema =
     [(''invA'', ''g1'', None), (''invA'', ''g2'', Some ''s1''), (''invA'', ''g2'', Some ''s2'')] \<and>
   \<not> isl (generateFeesSchema [] (Some example_tree) ''USD'') \<and>
   \<not> isl (serializeCreditNoteInput [] ''inv-1'' example_form ''USD'')"
proof -
  have f: "form_fees example_form = Some example_tree"
    by (simp add: example_form_def)
  note T = ruleset_congruent_with_serializer_walk[OF f example_tree_distinct,
      of "[]" "''inv-1''" "''USD''"]
  have i: "\<not> isl (generateFeesSchema [] (Some example_tree) ''USD'')"
    by (simp add: example_schema_generated)
  then have j: "\<not> isl (serializeCreditNoteInput [] ''inv-1'' example_form ''USD'')"
    using T by blast
  then obtain out where out: "serializeCreditNoteInput [] ''inv-1'' example_form ''USD'' = Inr out"
    by (cases "serializeCreditNoteInput [] ''inv-1'' example_form ''USD''") simp_all
  have "schema_shape example_schema = tree_shape example_tree"
    and "schema_paths example_schema = map fst (tree_walk example_tree)"
    using T example_schema_generated out by blast+
  moreover have "map fst (tree_walk example_tree) =
     [(''invA'', ''g1'', None), (''invA'', ''g2'', Some ''s1''), (''invA'', ''g2'', Some ''s2'')]"
    by (simp add: example_tree_def tree_walk_def sub_walk_def group_walk_def)
  ultimately show ?thesis
    using f example_tree_distinct i j by simp
qed

text \<open>
  C6. In the output of the serializer \<^verbatim>\<open>creditAmountCents\<close> is the conversion to minor
  units of the first pay-back entry of type credit, and \<^verbatim>\<open>refundAmountCents\<close> that of
  the first entry of type refund; each is 0 when there is no pay-back array or no entry of
  its type, and each is a function of the entries of its own type only.
\<close>

theorem payBack_amounts_by_type:
  assumes "serializeCreditNoteInput tbl iid form cur = Inr out"
  shows "creditAmountCents out =
           (case form_payBack form of
              None \<Rightarrow> 0
            | Some pb \<Rightarrow> entry_cents tbl cur (filter (\<lambda>p. payBack_type p = Some credit) pb)) \<and>
         refundAmountCents out =
           (case form_payBack form of
              None \<Rightarrow> 0
            | Some pb \<Rightarrow> entry_cents tbl cur (filter (\<lambda>p. payBack_type p = Some refund) pb))"
  using assms by (auto simp: serialize_result split: sum.splits)

theorem payBack_amounts_by_type_witness:
  "(1200::int) = entry_cents [] ''USD'' [\<lparr>payBack_type = Some credit, payBack_value = Some 12\<rparr>] \<and>
   (250::int) = entry_cents [] ''USD'' [\<lparr>payBack_type = Some refund, payBack_value = Some (5 / 2)\<rparr>]"
  using payBack_amounts_by_type[OF example_addOn_serialized]
  by (simp add: example_addOn_form_def)

text \<open>
  C7. When the serializer returns, its items are those it returns for the same form
  without add-on fee, which are the items of the tree walk, preceded by exactly one item
  \<^verbatim>\<open>{feeId: addOnFee.id, amountCents: convert(addOnFee.value)}\<close> when the add-on fee is
  there with a value other than 0, and by nothing when the add-on fee is absent or its value
  is 0.
\<close>

theorem addOn_item_comes_first:
  assumes "serializeCreditNoteInput tbl iid form cur = Inr out"
  shows "\<exists>rest. serializeCreditNoteInput tbl iid (form\<lparr>form_addOnFee := None\<rparr>) cur = Inr rest \<and>
           items out =
             (case form_addOnFee form of
                None \<Rightarrow> items rest
              | Some addOn \<Rightarrow>
                  if fee_value addOn = 0 then items rest
                  else \<lparr>feeId = fee_id addOn,
                        amountCents = serializeAmount tbl (fee_value addOn) cur\<rparr> # items rest)"
  using assms
  by (auto simp: serialize_result addOn_items_def item_of_def split: sum.splits option.splits)

theorem addOn_item_comes_first_witness:
  "\<exists>rest. serializeCreditNoteInput [] ''inv-1'' (example_addOn_form\<lparr>form_addOnFee := None\<rparr>) ''USD''
            = Inr rest \<and>
          [\<lparr>feeId = ''a1'', amountCents = 500\<rparr>,
           \<lparr>feeId = ''f1'', amountCents = 1000\<rparr>,
           \<lparr>feeId = ''f2'', amountCents = 200\<rparr>] =
          \<lparr>feeId = ''a1'', amountCents = 500\<rparr> # items rest"
  using addOn_item_comes_first[OF example_addOn_serialized]
  by (simp add: example_addOn_form_def serializeAmount_def getCurrencyPrecision_def)

text \<open>
  C8. The value of a leaf that is not checked has no influence: two trees that differ only
  in the values of unchecked leaves give the same result of the serializer (output or
  error), and the same result of validation against any ruleset.
\<close>

theorem unchecked_values_have_no_influence:
  assumes "unchecked_values_cleared t1 = unchecked_values_cleared t2"
  shows "serializeCreditNoteInput tbl iid (form\<lparr>form_fees := Some t1\<rparr>) cur =
         serializeCreditNoteInput tbl iid (form\<lparr>form_fees := Some t2\<rparr>) cur \<and>
         validate schema t1 = validate schema t2 \<and>
         (\<forall>leaf_schema fee. \<not> checked fee \<longrightarrow> validate_simpleFee leaf_schema fee = [])"
proof -
  let ?h = "\<lambda>fee. if checked fee then fee else fee\<lparr>fee_value := 0\<rparr>"
  have s: "serializeCreditNoteInput tbl iid (form\<lparr>form_fees := Some (map_leaves ?h t)\<rparr>) cur =
           serializeCreditNoteInput tbl iid (form\<lparr>form_fees := Some t\<rparr>) cur" for t
    by (rule serialize_map_leaves) simp_all
  have v: "validate schema (map_leaves ?h t) = validate schema t" for t
    by (rule validate_map_leaves) (simp add: validate_simpleFee_def)
  have u: "validate_simpleFee leaf_schema fee = []" if "\<not> checked fee" for leaf_schema fee
    using that by (simp add: validate_simpleFee_def)
  show ?thesis
    using s[of t1] s[of t2] v[of t1] v[of t2] assms u
    by (simp add: unchecked_values_cleared_def)
qed

theorem unchecked_values_have_no_influence_witness:
  "unchecked_values_cleared example_tree = unchecked_values_cleared example_tree_other_value \<and>
   serializeCreditNoteInput [] ''inv-1'' (example_form\<lparr>form_fees := Some example_tree\<rparr>) ''USD'' =
   serializeCreditNoteInput [] ''inv-1''
     (example_form\<lparr>form_fees := Some example_tree_other_value\<rparr>) ''USD'' \<and>
   validate example_schema example_tree = validate example_schema example_tree_other_value \<and>
   validate_simpleFee \<lparr>value_min = 1 / 10 ^ 16, value_max = Some 10\<rparr>
     \<lparr>fee_id = ''f3'', checked = False, fee_value = 99, maxAmount = 1000\<rparr> = []"
proof -
  have e: "unchecked_values_cleared example_tree =
           unchecked_values_cleared example_tree_other_value"
    by (simp add: unchecked_values_cleared_def map_leaves_def map_sub_def map_group_def
        example_tree_def example_tree_other_value_def)
  show ?thesis
    using unchecked_values_have_no_influence[OF e, of "[]" "''inv-1''" example_form "''USD''"
        example_schema] e
    by simp
qed

text \<open>
  C9. For a populated fee tree the serializer emits an item \<^verbatim>\<open>{feeId: leaf.id,
  amountCents: 0}\<close> for every leaf, bare or grouped, that is checked with value 0: the
  number of items from the tree is the number of checked leaves whatever their values. Only
  the add-on fee is left out for a value of 0. It is the leaf rule of the validator that
  rejects a checked leaf of value 0.
\<close>

theorem checked_leaf_with_value_zero_is_emitted:
  assumes "form_fees form = Some t" and "distinct_keys t" and "populated t"
  shows "\<exists>out. serializeCreditNoteInput tbl iid form cur = Inr out \<and>
           (\<forall>fee\<in>set (tree_leaves t).
              checked fee \<and> fee_value fee = 0 \<longrightarrow>
                \<lparr>feeId = fee_id fee, amountCents = 0\<rparr> \<in> set (items out)) \<and>
           length (items out) =
             length (addOn_items tbl cur form) + length (filter checked (tree_leaves t)) \<and>
           (\<forall>addOn. form_addOnFee form = Some addOn \<and> fee_value addOn = 0 \<longrightarrow>
              items out = map (item_of tbl cur) (filter checked (tree_leaves t))) \<and>
           (\<forall>fee bound. checked fee \<and> fee_value fee = 0 \<longrightarrow>
              validate_simpleFee (simpleFeeSchema tbl bound cur) fee \<noteq> [])"
proof -
  let ?out = "\<lparr>invoiceId = iid,
             reason = form_reason form,
             description = form_description form,
             creditAmountCents =
               (case form_payBack form of
                  None \<Rightarrow> 0
                | Some pb \<Rightarrow>
                    entry_cents tbl cur (filter (\<lambda>p. payBack_type p = Some credit) pb)),
             refundAmountCents =
               (case form_payBack form of
                  None \<Rightarrow> 0
                | Some pb \<Rightarrow>
                    entry_cents tbl cur (filter (\<lambda>p. payBack_type p = Some refund) pb)),
             items = addOn_items tbl cur form @
                     map (item_of tbl cur) (filter checked (tree_leaves t))\<rparr>"
  have out: "serializeCreditNoteInput tbl iid form cur = Inr ?out"
    using serialize_on_tree[OF assms(1,2), of tbl iid cur] assms(3) by simp
  have z: "\<lparr>feeId = fee_id fee, amountCents = 0\<rparr> \<in> set (items ?out)"
    if "fee \<in> set (tree_leaves t)" "checked fee" "fee_value fee = 0" for fee
  proof -
    have "item_of tbl cur fee = \<lparr>feeId = fee_id fee, amountCents = 0\<rparr>"
      using that(3) by (simp add: item_of_def serializeAmount_def)
    moreover have "item_of tbl cur fee \<in> set (map (item_of tbl cur) (filter checked (tree_leaves t)))"
      using that(1,2) by simp
    ultimately show ?thesis by simp
  qed
  have l: "length (items ?out) =
             length (addOn_items tbl cur form) + length (filter checked (tree_leaves t))"
    by simp
  have a: "items ?out = map (item_of tbl cur) (filter checked (tree_leaves t))"
    if "form_addOnFee form = Some addOn" "fee_value addOn = 0" for addOn
    using that by (simp add: addOn_items_def)
  have r: "validate_simpleFee (simpleFeeSchema tbl bound cur) fee \<noteq> []"
    if "checked fee" "fee_value fee = 0" for fee bound
    using that by (simp add: validate_simpleFee_def simpleFeeSchema_def)
  show ?thesis
    using out z l a r by blast
qed

theorem checked_leaf_with_value_zero_is_emitted_witness:
  "form_fees zero_form = Some zero_tree \<and> distinct_keys zero_tree \<and> populated zero_tree \<and>
   (\<exists>out. serializeCreditNoteInput [] ''inv-1'' zero_form ''USD'' = Inr out \<and>
      \<lparr>feeId = ''f1'', amountCents = 0\<rparr> \<in> set (items out) \<and>
      items out = [\<lparr>feeId = ''f1'', amountCents = 0\<rparr>]) \<and>
   validate_simpleFee (simpleFeeSchema [] (Some 5000) ''USD'')
     \<lparr>fee_id = ''f1'', checked = True, fee_value = 0, maxAmount = 5000\<rparr> \<noteq> []"
proof -
  have f: "form_fees zero_form = Some zero_tree"
    by (simp add: zero_form_def)
  have a: "form_addOnFee zero_form =
             Some \<lparr>fee_id = ''a1'', checked = True, fee_value = 0, maxAmount = 900\<rparr>"
    by (simp add: zero_form_def)
  have i: "map (item_of [] ''USD'') (filter checked (tree_leaves zero_tree)) =
           [\<lparr>feeId = ''f1'', amountCents = 0\<rparr>]"
    by (simp add: zero_tree_leaves item_of_def serializeAmount_def)
  from checked_leaf_with_value_zero_is_emitted[OF f zero_tree_distinct zero_tree_populated,
      of "[]" "''inv-1''" "''USD''"]
  obtain out where out: "serializeCreditNoteInput [] ''inv-1'' zero_form ''USD'' = Inr out"
    and z: "\<forall>fee\<in>set (tree_leaves zero_tree).
              checked fee \<and> fee_value fee = 0 \<longrightarrow>
                \<lparr>feeId = fee_id fee, amountCents = 0\<rparr> \<in> set (items out)"
    and s: "\<forall>addOn. form_addOnFee zero_form = Some addOn \<and> fee_value addOn = 0 \<longrightarrow>
              items out = map (item_of [] ''USD'') (filter checked (tree_leaves zero_tree))"
    and r: "\<forall>fee bound. checked fee \<and> fee_value fee = 0 \<longrightarrow>
              validate_simpleFee (simpleFeeSchema [] bound ''USD'') fee \<noteq> []"
    by blast
  have "validate_simpleFee (simpleFeeSchema [] (Some 5000) ''USD'')
     \<lparr>fee_id = ''f1'', checked = True, fee_value = 0, maxAmount = 5000\<rparr> \<noteq> []"
    using r by simp
  moreover
  have "\<lparr>feeId = ''f1'', amountCents = 0\<rparr> \<in> set (items out)"
    using z by (simp add: zero_tree_leaves)
  moreover have "items out = [\<lparr>feeId = ''f1'', amountCents = 0\<rparr>]"
    using s a i by simp
  ultimately show ?thesis
    using out f zero_tree_distinct zero_tree_populated by blast
qed

text \<open>
  C10. Validation reads only \<^verbatim>\<open>checked\<close> and \<^verbatim>\<open>value\<close> of the candidate's leaves: two
  candidates that differ only in \<^verbatim>\<open>maxAmount\<close> (or \<^verbatim>\<open>id\<close>) get the same result against
  the ruleset generated from an initial tree, whose bounds are the \<^verbatim>\<open>maxAmount\<close> fields
  of the initial tree (for keys without dots and brackets).
\<close>

theorem validation_reads_checked_and_value_only:
  assumes "generateFeesSchema tbl (Some init) cur = Inr schema"
    and "checked_and_value_only c1 = checked_and_value_only c2"
  shows "validate schema c1 = validate schema c2 \<and>
         (distinct_keys init \<and> safe_keys init \<longrightarrow> schema = mirror_schema tbl cur init)"
proof -
  let ?h = "\<lambda>fee. fee\<lparr>fee_id := [], maxAmount := 0\<rparr>"
  have v: "validate schema (map_leaves ?h t) = validate schema t" for t
    by (rule validate_map_leaves) (simp add: validate_simpleFee_def cong: option.case_cong)
  have m: "schema = mirror_schema tbl cur init" if "distinct_keys init" "safe_keys init"
    using generate_mirror[OF that, of tbl cur] assms(1)
    by (cases "populated init") simp_all
  show ?thesis
    using v[of c1] v[of c2] assms(2) m
    by (simp add: checked_and_value_only_def)
qed

theorem validation_reads_checked_and_value_only_witness:
  "generateFeesSchema [] (Some example_tree) ''USD'' = Inr example_schema \<and>
   checked_and_value_only example_tree = checked_and_value_only example_tree_other_max \<and>
   validate example_schema example_tree = validate example_schema example_tree_other_max \<and>
   distinct_keys example_tree \<and> safe_keys example_tree \<and>
   example_schema = mirror_schema [] ''USD'' example_tree"
proof -
  have e: "checked_and_value_only example_tree = checked_and_value_only example_tree_other_max"
    by (simp add: checked_and_value_only_def map_leaves_def map_sub_def map_group_def
        example_tree_def example_tree_other_max_def)
  show ?thesis
    using validation_reads_checked_and_value_only[OF example_schema_generated e]
      example_schema_generated e example_tree_distinct example_tree_safe
    by simp
qed

end
